theory Spec2Isabelle
  imports Main "HOL-Library.Word"
begin

unbundle bit_operations_syntax

section \<open>Bytes, strings and the configuration constants\<close>

text \<open>
  A Node.js \<open>Buffer\<close> is a sequence of bytes.  A JavaScript string is a sequence of
  UTF-16 code units of 16 bits each: a signature, a note and the message that is signed are
  such sequences, and \<open>js\<close> writes a literal of the program as code units.  File names
  are kept as the names the file system knows, of type \<open>string\<close>.  The constants are
  those of \<open>utils/config.js\<close>.
\<close>

type_synonym byte = "8 word"
type_synonym buffer = "byte list"
type_synonym jschar = "16 word"
type_synonym jsstring = "jschar list"
type_synonym path = string

definition js :: "string \<Rightarrow> jsstring" where
  "js s = map (\<lambda>c. of_nat (of_char c)) s"

definition ENCRYPTION_KEY_SIZE :: nat where
  "ENCRYPTION_KEY_SIZE = 32"

definition ENCRYPTION_IV_SIZE :: nat where
  "ENCRYPTION_IV_SIZE = 16"

definition ETH_ENCRYPT_MESSAGE :: jsstring where
  "ETH_ENCRYPT_MESSAGE = js ''ETH Encrypt - sign to encrypt or decrypt: ''"

definition FILE_EXTENSION :: string where
  "FILE_EXTENSION = ''eth.encrypted''"

section \<open>The JavaScript and Node.js primitives used by \<open>index.js\<close>\<close>

text \<open>
  \<open>String.prototype.replace\<close> with a string pattern replaces the first occurrence of the
  pattern, wherever it is, and leaves a string without an occurrence unchanged.  The
  replacement text used by the program is the empty string, which has no \<open>$\<close> patterns.
\<close>

fun js_replace :: "'a list \<Rightarrow> 'a list \<Rightarrow> 'a list \<Rightarrow> 'a list" where
  "js_replace pat rep [] = (if pat = [] then rep else [])"
| "js_replace pat rep (c # cs) =
     (if take (length pat) (c # cs) = pat then rep @ drop (length pat) (c # cs)
      else c # js_replace pat rep cs)"

text \<open>\<open>s.substring(0, n)\<close> for a non-negative \<open>n\<close>: the first \<open>n\<close> code units, or all of them.\<close>

definition js_substring0 :: "nat \<Rightarrow> 'a list \<Rightarrow> 'a list" where
  "js_substring0 n s = take n s"

text \<open>
  Node's hex decoder looks a character up by the low eight bits of its code unit (the code
  unit is passed on as an unsigned byte): a code unit above 255 is read as the character of
  its low byte, so \<open>U+0161\<close> is read as \<open>a\<close>.  Both cases of the letters are accepted; a
  character whose low byte is no hex digit is invalid.
\<close>

definition low_byte :: "jschar \<Rightarrow> nat" where
  "low_byte c = unat c mod 256"

definition unhex :: "jschar \<Rightarrow> nat option" where
  "unhex c =
     (let n = low_byte c in
      if 48 \<le> n \<and> n \<le> 57 then Some (n - 48)
      else if 97 \<le> n \<and> n \<le> 102 then Some (n - 87)
      else if 65 \<le> n \<and> n \<le> 70 then Some (n - 55)
      else None)"

text \<open>
  \<open>Buffer.from(s, 'hex')\<close> on a string: the characters are read two at a time, each pair
  gives one byte, and decoding stops at the first pair that holds an invalid character;
  a last character without a partner is dropped.  No error is raised.
\<close>

fun hexDecode :: "jsstring \<Rightarrow> buffer" where
  "hexDecode (a # b # cs) =
     (case unhex a of
        None \<Rightarrow> []
      | Some x \<Rightarrow>
          (case unhex b of
             None \<Rightarrow> []
           | Some y \<Rightarrow> of_nat (16 * x + y) # hexDecode cs))"
| "hexDecode [a] = []"
| "hexDecode [] = []"

text \<open>\<open>buf.toString('hex')\<close>: two lower-case digits for every byte.\<close>

definition hexDigit :: "nat \<Rightarrow> jschar" where
  "hexDigit n = js ''0123456789abcdef'' ! n"

definition toHex :: "buffer \<Rightarrow> jsstring" where
  "toHex bs = concat (map (\<lambda>b. [hexDigit (unat b div 16), hexDigit (unat b mod 16)]) bs)"

text \<open>
  The first argument of \<open>Buffer.from(x, 'hex')\<close> is a string in \<open>_createCipher\<close> and a
  Buffer in \<open>decryptBytes\<close> (which passes the slice itself to \<open>_createDecipher\<close>).  On a
  Buffer the encoding is ignored and the bytes are copied.
\<close>

datatype jsdata = Str jsstring | Buf buffer

fun Buffer_from_hex :: "jsdata \<Rightarrow> buffer" where
  "Buffer_from_hex (Str s) = hexDecode s"
| "Buffer_from_hex (Buf b) = b"

section \<open>Key derivation (\<open>index.js\<close>, \<open>signedEncryptionNoteToKey\<close>)\<close>

definition signedEncryptionNoteToKey :: "jsstring \<Rightarrow> buffer" where
  "signedEncryptionNoteToKey signedEncryptionNote =
     (let sanitizedSignature =
            js_substring0 (ENCRYPTION_KEY_SIZE * 2) (js_replace (js ''0x'') [] signedEncryptionNote)
      in hexDecode sanitizedSignature)"

section \<open>Errors\<close>

text \<open>
  Every exception the modelled code can raise is a value: the one thrown by
  \<open>partialReadSync\<close> itself, the \<open>TypeError\<close>s of the JavaScript runtime, the errors of the
  file system calls and the errors of Node's \<open>crypto\<close> module.
\<close>

datatype error =
    BadStartEnd
  | TypeError
  | ENOENT
  | EISDIR
  | EBADF
  | InvalidIV
  | InvalidKeyLength
  | CipherFinalized
  | Diverges

section \<open>The cipher of Node's \<open>crypto\<close> module\<close>

text \<open>
  \<open>ENCRYPTION_ALGORITHM\<close> is \<open>'aes-256-ctr'\<close>: a counter-mode stream cipher.  The AES block
  function is no part of the repository, so the keystream is a parameter of the model:
  \<open>ks key iv n\<close> is the keystream byte at offset \<open>n\<close> for this key and initialization
  vector.  An object made by \<open>createCipheriv\<close> or \<open>createDecipheriv\<close> holds the key, the
  vector, the number of bytes processed and whether \<open>final()\<close> has been called; \<open>update\<close>
  combines each input byte with the next keystream byte by exclusive or, and \<open>final\<close>
  returns no bytes.  Creation checks the length of the vector (16 bytes) and of the key (32
  bytes) and raises otherwise.
\<close>

type_synonym keystream = "buffer \<Rightarrow> buffer \<Rightarrow> nat \<Rightarrow> byte"

record cipher =
  c_key :: buffer
  c_iv :: buffer
  c_offset :: nat
  c_finalized :: bool

definition createCipheriv :: "buffer \<Rightarrow> buffer \<Rightarrow> error + cipher" where
  "createCipheriv key iv =
     (if length iv \<noteq> 16 then Inl InvalidIV
      else if length key \<noteq> 32 then Inl InvalidKeyLength
      else Inr \<lparr>c_key = key, c_iv = iv, c_offset = 0, c_finalized = False\<rparr>)"

definition createDecipheriv :: "buffer \<Rightarrow> buffer \<Rightarrow> error + cipher" where
  "createDecipheriv key iv =
     (if length iv \<noteq> 16 then Inl InvalidIV
      else if length key \<noteq> 32 then Inl InvalidKeyLength
      else Inr \<lparr>c_key = key, c_iv = iv, c_offset = 0, c_finalized = False\<rparr>)"

definition xor_keystream :: "keystream \<Rightarrow> buffer \<Rightarrow> buffer \<Rightarrow> nat \<Rightarrow> buffer \<Rightarrow> buffer" where
  "xor_keystream ks key iv off chunk =
     map (\<lambda>(i, b). b XOR ks key iv (off + i)) (zip [0..<length chunk] chunk)"

definition cipher_update :: "keystream \<Rightarrow> cipher \<Rightarrow> buffer \<Rightarrow> error + (buffer \<times> cipher)" where
  "cipher_update ks c chunk =
     (if c_finalized c then Inl CipherFinalized
      else Inr (xor_keystream ks (c_key c) (c_iv c) (c_offset c) chunk,
                c\<lparr>c_offset := c_offset c + length chunk\<rparr>))"

definition cipher_final :: "cipher \<Rightarrow> error + (buffer \<times> cipher)" where
  "cipher_final c =
     (if c_finalized c then Inl CipherFinalized
      else Inr ([], c\<lparr>c_finalized := True\<rparr>))"

section \<open>Encryption and decryption of buffers (\<open>index.js\<close>)\<close>

text \<open>
  \<open>_createCipher\<close> and \<open>_createDecipher\<close> (written without the leading underscore): the
  note gives the initialization vector, the signature gives the key.
\<close>

definition createCipher :: "jsdata \<Rightarrow> jsstring \<Rightarrow> error + cipher" where
  "createCipher encryptionNote signedEncryptionNote =
     (let iv = Buffer_from_hex encryptionNote;
          encryptionKey = signedEncryptionNoteToKey signedEncryptionNote
      in createCipheriv encryptionKey iv)"

definition createDecipher :: "jsdata \<Rightarrow> jsstring \<Rightarrow> error + cipher" where
  "createDecipher encryptionNote signedEncryptionNote =
     (let iv = Buffer_from_hex encryptionNote;
          encryptionKey = signedEncryptionNoteToKey signedEncryptionNote
      in createDecipheriv encryptionKey iv)"

definition encryptBytes :: "keystream \<Rightarrow> buffer \<Rightarrow> jsdata \<Rightarrow> jsstring \<Rightarrow> error + buffer" where
  "encryptBytes ks data encryptionNote signedEncryptionNote =
     (case createCipher encryptionNote signedEncryptionNote of
        Inl e \<Rightarrow> Inl e
      | Inr cipher \<Rightarrow>
          (case cipher_update ks cipher data of
             Inl e \<Rightarrow> Inl e
           | Inr (encryptedData, cipher1) \<Rightarrow>
               (case cipher_final cipher1 of
                  Inl e \<Rightarrow> Inl e
                | Inr (final, cipher2) \<Rightarrow>
                    Inr (Buffer_from_hex encryptionNote @ encryptedData @ final))))"

text \<open>\<open>data.slice(0, n)\<close> and \<open>data.slice(n)\<close> of a Buffer are \<open>take n\<close> and \<open>drop n\<close>.\<close>

definition readEncryptionNoteFromEncryptedBytes :: "buffer \<Rightarrow> jsstring" where
  "readEncryptionNoteFromEncryptedBytes data =
     (let ivBuffer = take ENCRYPTION_IV_SIZE data in toHex ivBuffer)"

definition decryptBytes :: "keystream \<Rightarrow> buffer \<Rightarrow> jsstring \<Rightarrow> error + buffer" where
  "decryptBytes ks data signedEncryptionNote =
     (let ivBuffer = take ENCRYPTION_IV_SIZE data;
          contentBuffer = drop ENCRYPTION_IV_SIZE data
      in case createDecipher (Buf ivBuffer) signedEncryptionNote of
           Inl e \<Rightarrow> Inl e
         | Inr decipher \<Rightarrow>
             (case cipher_update ks decipher contentBuffer of
                Inl e \<Rightarrow> Inl e
              | Inr (decryptedData, decipher1) \<Rightarrow>
                  (case cipher_final decipher1 of
                     Inl e \<Rightarrow> Inl e
                   | Inr (final, decipher2) \<Rightarrow> Inr (decryptedData @ final))))"

section \<open>The file system and the record of what an operation does\<close>

text \<open>
  The state the program acts on: the files (a path names a regular file with its content,
  or a directory), the table of open file descriptors, the next descriptor the system
  hands out, and the trace of the effects observed so far, in the order they happen.
  The names form one flat space: every name is taken to lie in a directory that exists.
\<close>

datatype node = File buffer | Dir

datatype event =
    Opened path nat
  | ReadAt nat nat nat
  | Closed nat
  | SignRequested jsstring jsstring
  | SignatureObtained jsstring
  | SignatureRefused
  | CipherCreated
  | ReadStreamCreated path
  | WriteStreamCreated path
  | ChunkWritten path buffer

record world =
  files :: "path \<Rightarrow> node option"
  open_fds :: "(nat \<times> path) list"
  next_fd :: nat
  trace :: "event list"

text \<open>
  \<open>fs.openSync(path, 'r')\<close>: fails when nothing has this name; a directory can be opened for
  reading.  The new descriptor is entered into the table.
\<close>

definition openSync :: "world \<Rightarrow> path \<Rightarrow> (error + nat) \<times> world" where
  "openSync w p =
     (case files w p of
        None \<Rightarrow> (Inl ENOENT, w)
      | Some n \<Rightarrow>
          (Inr (next_fd w),
           w\<lparr>open_fds := (next_fd w, p) # open_fds w,
             next_fd := Suc (next_fd w),
             trace := trace w @ [Opened p (next_fd w)]\<rparr>))"

text \<open>
  \<open>fs.readSync(fd, buf, offset, length, position)\<close>: reads at most \<open>length\<close> bytes of the
  file from \<open>position\<close> on into \<open>buf\<close> at \<open>offset\<close> and returns how many bytes were read,
  which is fewer than \<open>length\<close> at the end of the file.  Reading a directory raises
  \<open>EISDIR\<close>.  The call is made with \<open>offset + length\<close> within the buffer.
\<close>

definition readSync ::
  "world \<Rightarrow> nat \<Rightarrow> buffer \<Rightarrow> nat \<Rightarrow> nat \<Rightarrow> nat \<Rightarrow> (error + (nat \<times> buffer)) \<times> world" where
  "readSync w fd buf offset len position =
     (case map_of (open_fds w) fd of
        None \<Rightarrow> (Inl EBADF, w)
      | Some p \<Rightarrow>
          (let w' = w\<lparr>trace := trace w @ [ReadAt fd position len]\<rparr> in
           case files w p of
             None \<Rightarrow> (Inl EBADF, w')
           | Some Dir \<Rightarrow> (Inl EISDIR, w')
           | Some (File content) \<Rightarrow>
               (let bytes = take len (drop position content)
                in (Inr (length bytes,
                         take offset buf @ bytes @ drop (offset + length bytes) buf), w'))))"

fun remove_fd :: "nat \<Rightarrow> (nat \<times> path) list \<Rightarrow> (nat \<times> path) list" where
  "remove_fd fd [] = []"
| "remove_fd fd ((d, p) # rest) = (if d = fd then rest else (d, p) # remove_fd fd rest)"

definition closeSync :: "world \<Rightarrow> nat \<Rightarrow> (error + unit) \<times> world" where
  "closeSync w fd =
     (case map_of (open_fds w) fd of
        None \<Rightarrow> (Inl EBADF, w)
      | Some p \<Rightarrow>
          (Inr (), w\<lparr>open_fds := remove_fd fd (open_fds w),
                     trace := trace w @ [Closed fd]\<rparr>))"

definition existsSync :: "world \<Rightarrow> path \<Rightarrow> bool" where
  "existsSync w p = (files w p \<noteq> None)"

section \<open>Reading a part of a file (\<open>utils/fs-utils.js\<close>, \<open>partialReadSync\<close>)\<close>

text \<open>
  The function follows the source statement by statement.  \<open>new Buffer.from(0)\<close> in the
  branch for an empty range raises a \<open>TypeError\<close>, since \<open>Buffer.from\<close> refuses a number.
  \<open>Buffer.alloc\<close> gives a buffer of zero bytes.  An exception leaves the function at the
  statement that raised it, with the state as it is then.
\<close>

definition partialReadSync :: "world \<Rightarrow> path \<Rightarrow> int \<Rightarrow> int \<Rightarrow> (error + buffer) \<times> world" where
  "partialReadSync w p start end =
     (if start < 0 \<or> end < 0 \<or> end < start \<or> end - start > 0x3fffffff
      then (Inl BadStartEnd, w)
      else if end - start = 0 then (Inl TypeError, w)
      else
        (let buf = replicate (nat (end - start)) (0 :: byte) in
         case openSync w p of
           (Inl e, w1) \<Rightarrow> (Inl e, w1)
         | (Inr fd, w1) \<Rightarrow>
             (case readSync w1 fd buf 0 (nat (end - start)) (nat start) of
                (Inl e, w2) \<Rightarrow> (Inl e, w2)
              | (Inr (n, buf'), w2) \<Rightarrow>
                  (case closeSync w2 fd of
                     (Inl e, w3) \<Rightarrow> (Inl e, w3)
                   | (Inr u, w3) \<Rightarrow> (Inr buf', w3)))))"

definition readEncryptionNoteFromFile :: "world \<Rightarrow> path \<Rightarrow> (error + jsstring) \<times> world" where
  "readEncryptionNoteFromFile w filename =
     (case partialReadSync w filename 0 (int ENCRYPTION_IV_SIZE) of
        (Inl e, w') \<Rightarrow> (Inl e, w')
      | (Inr ivBuffer, w') \<Rightarrow> (Inr (toHex ivBuffer), w'))"

section \<open>Streams (\<open>utils/fs-utils.js\<close>, \<open>PrependInitializationVector\<close>, and \<open>encryptFileAsStream\<close>)\<close>

text \<open>
  A Node.js byte stream hands chunks to the stream it is piped into.  \<open>this.push(chunk)\<close>
  puts a chunk on the readable side of a transform; in a byte stream a chunk of length zero
  adds nothing there, so it never reaches the next stream.
\<close>

definition push :: "buffer list \<Rightarrow> buffer \<Rightarrow> buffer list" where
  "push out chunk = (if chunk = [] then out else out @ [chunk])"

text \<open>
  The class \<open>PrependInitializationVector\<close>: the fields \<open>this.iv\<close> and \<open>this.prepended\<close>,
  the constructor, and \<open>_transform\<close>, which is called once for every chunk that arrives.
  The class defines no \<open>_flush\<close>: when the input ends, nothing more is pushed.
\<close>

record prepend_iv =
  this_iv :: buffer
  this_prepended :: bool

definition new_PrependInitializationVector :: "buffer \<Rightarrow> prepend_iv" where
  "new_PrependInitializationVector v = \<lparr>this_iv = v, this_prepended = False\<rparr>"

definition transform_prepend :: "prepend_iv \<Rightarrow> buffer list \<Rightarrow> buffer \<Rightarrow> prepend_iv \<times> buffer list" where
  "transform_prepend this out chunk =
     (if \<not> this_prepended this
      then (this\<lparr>this_prepended := True\<rparr>, push (push out (this_iv this)) chunk)
      else (this, push out chunk))"

fun run_prepend :: "prepend_iv \<Rightarrow> buffer list \<Rightarrow> buffer list \<Rightarrow> buffer list" where
  "run_prepend this out [] = out"
| "run_prepend this out (chunk # chunks) =
     (case transform_prepend this out chunk of
        (this', out') \<Rightarrow> run_prepend this' out' chunks)"

text \<open>
  A cipher object used as a stream: every chunk that arrives is passed to \<open>update\<close> and the
  result is pushed; when the input ends, the result of \<open>final\<close> is pushed.
\<close>

fun run_cipher :: "keystream \<Rightarrow> cipher \<Rightarrow> buffer list \<Rightarrow> buffer list \<Rightarrow> error + buffer list" where
  "run_cipher ks c out [] =
     (case cipher_final c of
        Inl e \<Rightarrow> Inl e
      | Inr (final, c') \<Rightarrow> Inr (push out final))"
| "run_cipher ks c out (chunk # chunks) =
     (case cipher_update ks c chunk of
        Inl e \<Rightarrow> Inl e
      | Inr (encrypted, c') \<Rightarrow> run_cipher ks c' (push out encrypted) chunks)"

text \<open>
  \<open>fs.createReadStream\<close> delivers the content of a file in chunks of at most 64 KiB, none
  of them empty: an empty file delivers no chunk at all.
\<close>

definition highWaterMark :: nat where
  "highWaterMark = 65536"

function chunks_of :: "nat \<Rightarrow> buffer \<Rightarrow> buffer list" where
  "chunks_of n content =
     (if n = 0 \<or> content = [] then []
      else take n content # chunks_of n (drop n content))"
  by pat_completeness auto
termination
  by (relation "measure (\<lambda>(n, content). length content)") auto

declare chunks_of.simps [simp del]

text \<open>
  \<open>fs.createWriteStream\<close> creates the file, or empties it when it exists; every chunk that
  arrives is appended.  A directory cannot be opened for writing.
\<close>

definition createWriteStream :: "world \<Rightarrow> path \<Rightarrow> (error + unit) \<times> world" where
  "createWriteStream w p =
     (case files w p of
        Some Dir \<Rightarrow> (Inl EISDIR, w\<lparr>trace := trace w @ [WriteStreamCreated p]\<rparr>)
      | _ \<Rightarrow> (Inr (), w\<lparr>files := (files w)(p \<mapsto> File []),
                        trace := trace w @ [WriteStreamCreated p]\<rparr>))"

definition write_chunk :: "world \<Rightarrow> path \<Rightarrow> buffer \<Rightarrow> world" where
  "write_chunk w p chunk =
     w\<lparr>files := (files w)(p \<mapsto> File ((case files w p of Some (File old) \<Rightarrow> old | _ \<Rightarrow> []) @ chunk)),
       trace := trace w @ [ChunkWritten p chunk]\<rparr>"

fun write_chunks :: "world \<Rightarrow> path \<Rightarrow> buffer list \<Rightarrow> world" where
  "write_chunks w p [] = w"
| "write_chunks w p (chunk # chunks) = write_chunks (write_chunk w p chunk) p chunks"

text \<open>
  \<open>encryptFileAsStream\<close>, statement by statement: the read stream, the cipher (whose
  creation may raise), the prepending transform, the write stream, and the pipeline
  \<open>readStream.pipe(cipher).pipe(prependIV).pipe(writeStream)\<close>, which is run to its end.
  The write stream has emptied its file before the first chunk is read, so an output
  path that is the input path leaves nothing to read.  An input that is missing or a
  directory makes the read stream fail, and then no chunk flows.
\<close>

definition encryptFileAsStream ::
  "keystream \<Rightarrow> world \<Rightarrow> path \<Rightarrow> path \<Rightarrow> jsdata \<Rightarrow> jsstring \<Rightarrow> (error + unit) \<times> world" where
  "encryptFileAsStream ks w inputFileName outputFileName encryptionNote signedEncryptionNote =
     (let w1 = w\<lparr>trace := trace w @ [ReadStreamCreated inputFileName]\<rparr> in
      case createCipher encryptionNote signedEncryptionNote of
        Inl e \<Rightarrow> (Inl e, w1)
      | Inr cipher \<Rightarrow>
          (let w2 = w1\<lparr>trace := trace w1 @ [CipherCreated]\<rparr>;
               prependIV = new_PrependInitializationVector (Buffer_from_hex encryptionNote)
           in case createWriteStream w2 outputFileName of
                (Inl e, w3) \<Rightarrow> (Inl e, w3)
              | (Inr u, w3) \<Rightarrow>
                  (case files w3 inputFileName of
                     None \<Rightarrow> (Inl ENOENT, w3)
                   | Some Dir \<Rightarrow> (Inl EISDIR, w3)
                   | Some (File content) \<Rightarrow>
                       (case run_cipher ks cipher [] (chunks_of highWaterMark content) of
                          Inl e \<Rightarrow> (Inl e, w3)
                        | Inr encrypted \<Rightarrow>
                            (Inr (), write_chunks w3 outputFileName
                                       (run_prepend prependIV [] encrypted))))))"

section \<open>The command line front end (\<open>cli.js\<close>) and the signer\<close>

text \<open>
  \<open>filename.lastIndexOf('/')\<close> and \<open>filename.indexOf('.', start)\<close>: the index of the
  character, or \<open>-1\<close>; a negative start counts as 0.
\<close>

definition js_lastIndexOf :: "char \<Rightarrow> string \<Rightarrow> int" where
  "js_lastIndexOf c s =
     (case filter (\<lambda>i. s ! i = c) (rev [0..<length s]) of
        [] \<Rightarrow> - 1
      | i # _ \<Rightarrow> int i)"

definition js_indexOf_from :: "char \<Rightarrow> int \<Rightarrow> string \<Rightarrow> int" where
  "js_indexOf_from c start s =
     (case filter (\<lambda>i. s ! i = c) [nat (max 0 start)..<length s] of
        [] \<Rightarrow> - 1
      | i # _ \<Rightarrow> int i)"

text \<open>\<open>_appendToFilename\<close> of \<open>utils/fs-utils.js\<close> (written without the underscore).\<close>

definition appendToFilename :: "string \<Rightarrow> string \<Rightarrow> string" where
  "appendToFilename filename string =
     (let lastSlashIndex = js_lastIndexOf CHR ''/'' filename;
          lastDotIndex = js_indexOf_from CHR ''.'' lastSlashIndex filename
      in if lastDotIndex = - 1 then filename @ string
         else take (nat lastDotIndex) filename @ string @ drop (nat lastDotIndex) filename)"

text \<open>The decimal digits of a number, as the template string \<open>`-dup-${i}`\<close> writes them.\<close>

fun decimal :: "nat \<Rightarrow> string" where
  "decimal n =
     (if n < 10 then [char_of (48 + n)]
      else decimal (n div 10) @ [char_of (48 + n mod 10)])"

declare decimal.simps [simp del]

text \<open>
  \<open>resolveOutputFile\<close> calls itself until it finds a name that does not exist.  Nothing
  bounds the number of calls, so the result is an option: \<open>None\<close> when the search does not
  end.
\<close>

partial_function (option) resolveOutputFile :: "world \<Rightarrow> string \<Rightarrow> nat \<Rightarrow> string option" where
  "resolveOutputFile w outputFileName i =
     (let testFileName =
            (if i \<noteq> 0 then appendToFilename outputFileName (''-dup-'' @ decimal i)
             else outputFileName)
      in if existsSync w testFileName then resolveOutputFile w outputFileName (i + 1)
         else Some testFileName)"

declare resolveOutputFile.simps [code]

text \<open>
  \<open>generateDefaultOutputFile(inputFileName, 'encrypt')\<close>: the branch of the function for
  encryption.
\<close>

definition generateDefaultOutputFile_encrypt :: "string \<Rightarrow> string" where
  "generateDefaultOutputFile_encrypt inputFileName = inputFileName @ ''.'' @ FILE_EXTENSION"

text \<open>
  \<open>generateEncryptionNote\<close> reads 16 bytes from the random source of the system; the bytes
  it reads are an argument of the model.
\<close>

definition generateEncryptionNote :: "buffer \<Rightarrow> jsstring" where
  "generateEncryptionNote randomBytes = toHex randomBytes"

text \<open>
  The provider is what \<open>processAction\<close> builds: for a private key an object with a default
  account and a signer, for an RPC URL the empty object \<open>{}\<close>, on which
  \<open>provider.eth.defaultAccount\<close> raises a \<open>TypeError\<close>.  The signer is outside the
  repository: it is a function from the message and the address to the pair \<open>(err, sig)\<close> it
  calls back with.  \<open>if (sig)\<close> holds for a string that is defined and not empty.
\<close>

datatype provider =
    EmptyProvider
  | Web3 jsstring "jsstring \<Rightarrow> jsstring \<Rightarrow> string option \<times> jsstring option"

record options =
  opt_output :: "string option"
  opt_verbose :: bool

type_synonym outcome = "(error + unit) \<times> world"

text \<open>
  \<open>signEncryptionNote\<close> takes the two continuations of the source.  The trace records the
  request, and then which of the two is called.
\<close>

definition signEncryptionNote ::
  "jsstring \<Rightarrow> provider \<Rightarrow> (jsstring \<Rightarrow> world \<Rightarrow> outcome) \<Rightarrow> (string option \<Rightarrow> world \<Rightarrow> outcome)
     \<Rightarrow> world \<Rightarrow> outcome" where
  "signEncryptionNote note provider cb errorCb w =
     (case provider of
        EmptyProvider \<Rightarrow> (Inl TypeError, w)
      | Web3 address sign \<Rightarrow>
          (let signatureMessage = ETH_ENCRYPT_MESSAGE @ note;
               w1 = w\<lparr>trace := trace w @ [SignRequested signatureMessage address]\<rparr>
           in case sign signatureMessage address of
                (err, Some sig) \<Rightarrow>
                  if sig \<noteq> [] then cb sig (w1\<lparr>trace := trace w1 @ [SignatureObtained sig]\<rparr>)
                  else errorCb err (w1\<lparr>trace := trace w1 @ [SignatureRefused]\<rparr>)
              | (err, None) \<Rightarrow> errorCb err (w1\<lparr>trace := trace w1 @ [SignatureRefused]\<rparr>)))"

text \<open>\<open>handleRuntimeError\<close> writes to the console only.\<close>

definition handleRuntimeError :: "string option \<Rightarrow> options \<Rightarrow> world \<Rightarrow> outcome" where
  "handleRuntimeError err opts w = (Inr (), w)"

text \<open>
  \<open>processFileEncryption\<close>.  Writing to the console is left out, and with it the branch for
  \<open>options.verbose\<close>, which prints the key.
\<close>

definition processFileEncryption ::
  "keystream \<Rightarrow> buffer \<Rightarrow> world \<Rightarrow> string \<Rightarrow> provider \<Rightarrow> options \<Rightarrow> outcome" where
  "processFileEncryption ks randomBytes w fileName provider opts =
     (case provider of
        EmptyProvider \<Rightarrow> (Inl TypeError, w)
      | Web3 userAddress sign \<Rightarrow>
          (let outputFileName =
                 (case opt_output opts of
                    None \<Rightarrow> generateDefaultOutputFile_encrypt fileName
                  | Some out \<Rightarrow>
                      if out \<noteq> [] then out else generateDefaultOutputFile_encrypt fileName);
               encryptionNote = generateEncryptionNote randomBytes
           in signEncryptionNote encryptionNote provider
                (\<lambda>signedEncryptionNote w'.
                   case resolveOutputFile w' outputFileName 0 of
                     None \<Rightarrow> (Inl Diverges, w')
                   | Some resolved \<Rightarrow>
                       encryptFileAsStream ks w' fileName resolved (Str encryptionNote)
                         signedEncryptionNote)
                (\<lambda>err w'. handleRuntimeError err opts w')
                w))"

section \<open>Notions of the specification\<close>

text \<open>
  The specification speaks of hex characters, of a signature with an optional \<open>0x\<close> prefix
  stripped, of removing the first occurrence of \<open>0x\<close>, and of decoding pairs of hex
  characters.  These definitions follow its words; the theorems compare them with the
  functions above.  A hex character is one of the 22 characters that write a hex digit.
  The decoder accepts more: every character whose low byte is the code of a hex character.
\<close>

definition is_hex_char :: "jschar \<Rightarrow> bool" where
  "is_hex_char c \<longleftrightarrow> c \<in> set (js ''0123456789abcdefABCDEF'')"

definition hex_accepted :: "jschar \<Rightarrow> bool" where
  "hex_accepted c \<longleftrightarrow> is_hex_char (of_nat (low_byte c))"

definition strip_0x_prefix :: "jsstring \<Rightarrow> jsstring" where
  "strip_0x_prefix s = (if take 2 s = js ''0x'' then drop 2 s else s)"

definition contains_0x :: "jsstring \<Rightarrow> bool" where
  "contains_0x s \<longleftrightarrow> (\<exists>i. take 2 (drop i s) = js ''0x'')"

text \<open>
  \<open>first_0x_removed s t\<close>: \<open>t\<close> is \<open>s\<close> without its first occurrence of \<open>0x\<close>, wherever
  it is, or \<open>s\<close> itself when there is none.
\<close>

definition first_0x_removed :: "jsstring \<Rightarrow> jsstring \<Rightarrow> bool" where
  "first_0x_removed s t \<longleftrightarrow>
     (\<exists>a b. s = a @ js ''0x'' @ b \<and> (\<forall>i<length a. take 2 (drop i s) \<noteq> js ''0x'') \<and> t = a @ b)
     \<or> ((\<forall>i. take 2 (drop i s) \<noteq> js ''0x'') \<and> t = s)"

text \<open>
  The digit a character writes is found in the table of the hex characters, under the
  character of its low byte.  The bytes written by a text of accepted characters, two
  characters for each byte: the first gives the high four bits and the second the low four
  bits.  A character left over at the end writes nothing.
\<close>

definition hex_digit_values :: "(jschar \<times> nat) list" where
  "hex_digit_values = zip (js ''0123456789abcdef'') [0..<16] @ zip (js ''ABCDEF'') [10..<16]"

definition hex_value :: "jschar \<Rightarrow> nat" where
  "hex_value c =
     (case map_of hex_digit_values (of_nat (low_byte c)) of
        Some v \<Rightarrow> v
      | None \<Rightarrow> 0)"

fun decode_pairs :: "jsstring \<Rightarrow> buffer" where
  "decode_pairs (a # b # cs) = of_nat (16 * hex_value a + hex_value b) # decode_pairs cs"
| "decode_pairs [a] = []"
| "decode_pairs [] = []"

text \<open>
  The order of the steps of an operation, read off its trace: \<open>happens_before P Q tr\<close> says
  that every event of \<open>tr\<close> that satisfies \<open>Q\<close> comes after an event that satisfies \<open>P\<close>.
  The signer declines when it calls back without a signature.
\<close>

fun is_signature :: "event \<Rightarrow> bool" where
  "is_signature (SignatureObtained sig) = True"
| "is_signature e = False"

fun is_cipher :: "event \<Rightarrow> bool" where
  "is_cipher CipherCreated = True"
| "is_cipher e = False"

fun is_output :: "event \<Rightarrow> bool" where
  "is_output (WriteStreamCreated p) = True"
| "is_output (ChunkWritten p chunk) = True"
| "is_output e = False"

definition happens_before :: "(event \<Rightarrow> bool) \<Rightarrow> (event \<Rightarrow> bool) \<Rightarrow> event list \<Rightarrow> bool" where
  "happens_before P Q tr \<longleftrightarrow> (\<forall>n<length tr. Q (tr ! n) \<longrightarrow> (\<exists>m<n. P (tr ! m)))"

definition signer_declines :: "provider \<Rightarrow> jsstring \<Rightarrow> bool" where
  "signer_declines provider note =
     (case provider of
        EmptyProvider \<Rightarrow> False
      | Web3 address sign \<Rightarrow>
          (case snd (sign (ETH_ENCRYPT_MESSAGE @ note) address) of
             None \<Rightarrow> True
           | Some sig \<Rightarrow> sig = []))"

section \<open>Sample inputs\<close>

text \<open>
  Concrete inputs at which the theorems below are evaluated: a keystream, the plaintext
  \<open>hello world\<close>, a note of 16 zero bytes, a signature that gives the key of 32 bytes
  \<open>0x11\<close>, the payload they encrypt to, and a small file system.
\<close>

definition sample_keystream :: keystream where
  "sample_keystream key iv n = sum_list key + sum_list iv + of_nat n"

definition hello_world :: buffer where
  "hello_world = [104, 101, 108, 108, 111, 32, 119, 111, 114, 108, 100]"

definition zero_note :: jsstring where
  "zero_note = js ''00000000000000000000000000000000''"

definition ones_signature :: jsstring where
  "ones_signature = js ''0x1111111111111111111111111111111111111111111111111111111111111111''"

definition hello_payload :: buffer where
  "hello_payload = replicate 16 0 @ [72, 68, 78, 79, 75, 5, 81, 72, 90, 69, 78]"

definition sample_world :: world where
  "sample_world =
     \<lparr>files = [''short.bin'' \<mapsto> File [1, 2, 3],
               ''dir'' \<mapsto> Dir,
               ''hello.txt'' \<mapsto> File hello_world,
               ''empty.txt'' \<mapsto> File [],
               ''hello.txt.eth.encrypted'' \<mapsto> File hello_payload],
      open_fds = [],
      next_fd = 3,
      trace = []\<rparr>"

definition sample_address :: jsstring where
  "sample_address = js ''0xabc''"

definition sample_signer :: "jsstring \<Rightarrow> jsstring \<Rightarrow> string option \<times> jsstring option" where
  "sample_signer message address = (None, Some ones_signature)"

definition declining_signer :: "jsstring \<Rightarrow> jsstring \<Rightarrow> string option \<times> jsstring option" where
  "declining_signer message address = (Some ''User denied message signature'', None)"

definition sample_options :: options where
  "sample_options = \<lparr>opt_output = None, opt_verbose = False\<rparr>"

section \<open>Hex decoding and the removal of \<open>0x\<close>\<close>

lemma js_0x: "js ''0x'' = [0x30, 0x78]"
  by (simp add: js_def)

lemma length_js: "length (js s) = length s"
  by (simp add: js_def)

lemma low_byte_less: "low_byte c < 256"
  by (simp add: low_byte_def)

lemma unhex_table:
  "list_all (\<lambda>n. (let m = n mod 256 in
        if 48 \<le> m \<and> m \<le> 57 then Some (m - 48)
        else if 97 \<le> m \<and> m \<le> 102 then Some (m - 87)
        else if 65 \<le> m \<and> m \<le> 70 then Some (m - 55)
        else None) = map_of hex_digit_values (of_nat n)) [0..<256]"
  by code_simp


lemma unhex_eq_table: "unhex c = map_of hex_digit_values (of_nat (low_byte c))"
proof -
  have "low_byte c \<in> set [0..<256]"
    using low_byte_less [of c] by simp
  with unhex_table have
    "(let m = low_byte c mod 256 in
        if 48 \<le> m \<and> m \<le> 57 then Some (m - 48)
        else if 97 \<le> m \<and> m \<le> 102 then Some (m - 87)
        else if 65 \<le> m \<and> m \<le> 70 then Some (m - 55)
        else None) = map_of hex_digit_values (of_nat (low_byte c))"
    unfolding list_all_iff by blast
  moreover have "low_byte c mod 256 = low_byte c"
    by (simp add: low_byte_def)
  ultimately show ?thesis
    by (simp add: unhex_def)
qed

lemma hex_chars_table:
  "set (js ''0123456789abcdefABCDEF'') = fst ` set hex_digit_values"
  by code_simp

lemma unhex_is_hex: "unhex c \<noteq> None \<longleftrightarrow> hex_accepted c"
  by (simp add: unhex_eq_table hex_accepted_def is_hex_char_def hex_chars_table
      map_of_eq_None_iff)

lemma unhex_hex_value: "unhex c = Some v \<Longrightarrow> hex_value c = v"
  by (simp add: unhex_eq_table hex_value_def)

lemma hex_chars_accepted: "list_all hex_accepted (js ''0123456789abcdefABCDEF'')"
  by code_simp

lemma is_hex_char_accepted: "is_hex_char c \<Longrightarrow> hex_accepted c"
  using hex_chars_accepted by (simp add: is_hex_char_def list_all_iff)

lemma x_not_hex: "\<not> is_hex_char 0x78"
  by code_simp

lemma hexDecode_takeWhile: "hexDecode s = decode_pairs (takeWhile hex_accepted s)"
proof (induction s rule: hexDecode.induct)
  case (1 a b cs)
  then show ?case
    using unhex_is_hex [of a] unhex_is_hex [of b]
    by (auto split: option.splits dest: unhex_hex_value)
next
  case (2 a)
  then show ?case by simp
next
  case 3
  then show ?case by simp
qed

lemma length_decode_pairs: "length (decode_pairs s) = length s div 2"
  by (induction s rule: decode_pairs.induct) simp_all

lemma length_hexDecode: "length (hexDecode s) = length (takeWhile hex_accepted s) div 2"
  by (simp add: hexDecode_takeWhile length_decode_pairs)


lemma js_ff: "js ''ff'' = [0x66, 0x66]"
  by (simp add: js_def)

lemma js_replace_none:
  "(\<forall>i. take (length pat) (drop i s) \<noteq> pat) \<Longrightarrow> js_replace pat rep s = s"
proof (induction s)
  case Nil
  then show ?case by auto
next
  case (Cons c cs)
  have h0: "take (length pat) (c # cs) \<noteq> pat"
    using Cons.prems [rule_format, of 0] by simp
  have "\<forall>i. take (length pat) (drop i cs) \<noteq> pat"
  proof
    fix i show "take (length pat) (drop i cs) \<noteq> pat"
      using Cons.prems [rule_format, of "Suc i"] by simp
  qed
  with Cons.IH h0 show ?case by simp
qed

lemma js_replace_first:
  "(\<forall>i<length a. take (length pat) (drop i (a @ pat @ b)) \<noteq> pat)
   \<Longrightarrow> js_replace pat rep (a @ pat @ b) = a @ rep @ b"
proof (induction a)
  case Nil
  then show ?case by (cases pat; cases b) auto
next
  case (Cons c cs)
  have h0: "take (length pat) ((c # cs) @ pat @ b) \<noteq> pat"
    using Cons.prems [rule_format, of 0] by simp
  have "\<forall>i<length cs. take (length pat) (drop i (cs @ pat @ b)) \<noteq> pat"
  proof (intro allI impI)
    fix i assume "i < length cs"
    then show "take (length pat) (drop i (cs @ pat @ b)) \<noteq> pat"
      using Cons.prems [rule_format, of "Suc i"] by simp
  qed
  with Cons.IH h0 show ?case by simp
qed

lemma js_replace_0x_append_ff:
  "js_replace (js ''0x'') [] (s @ js ''ff'') = js_replace (js ''0x'') [] s @ js ''ff''"
  unfolding js_0x js_ff
proof (induction s)
  case Nil
  then show ?case by simp
next
  case (Cons c cs)
  show ?case
  proof (cases cs)
    case Nil
    then show ?thesis by simp
  next
    case (Cons d ds)
    with Cons.IH show ?thesis by simp
  qed
qed

lemma length_filter_js_replace:
  "length (filter P (js_replace pat [] s)) \<le> length (filter P s)"
proof (induction s)
  case Nil
  then show ?case by simp
next
  case (Cons c cs)
  have d: "length (filter P (drop n xs)) \<le> length (filter P xs)" for n and xs :: "'a list"
    by (metis append_take_drop_id filter_append length_append le_add2)
  show ?case
  proof (cases pat)
    case Nil
    then show ?thesis by simp
  next
    case (Cons p ps)
    then show ?thesis
      using Cons.IH d [of "length ps" cs] by (auto intro: le_SucI)
  qed
qed

lemma length_js_replace:
  "length (js_replace pat [] s) \<le> length s"
  by (induction s) auto

lemma length_0x: "length (js ''0x'') = 2"
  by (simp add: js_def)

lemma js_replace_0x_Cons:
  "js_replace (js ''0x'') rep (c # cs) =
     (if take 2 (c # cs) = (js ''0x'') then rep @ drop 2 (c # cs) else c # js_replace (js ''0x'') rep cs)"
  by (subst js_replace.simps(2)) (simp only: length_0x)

lemma js_replace_0x_first:
  assumes "\<forall>i<length a. take 2 (drop i (a @ (js ''0x'') @ b)) \<noteq> (js ''0x'')"
  shows "js_replace (js ''0x'') rep (a @ (js ''0x'') @ b) = a @ rep @ b"
proof -
  have "\<forall>i<length a. take (length (js ''0x'')) (drop i (a @ (js ''0x'') @ b)) \<noteq> (js ''0x'')"
    unfolding length_0x using assms .
  then show ?thesis by (rule js_replace_first)
qed

lemma js_replace_0x_none:
  assumes "\<forall>i. take 2 (drop i s) \<noteq> (js ''0x'')"
  shows "js_replace (js ''0x'') rep s = s"
proof -
  have "\<forall>i. take (length (js ''0x'')) (drop i s) \<noteq> (js ''0x'')"
    unfolding length_0x using assms .
  then show ?thesis by (rule js_replace_none)
qed

lemma first_0x_removed_js_replace: "first_0x_removed s (js_replace (js ''0x'') [] s)"
proof (induction s)
  case Nil
  then show ?case by (simp add: first_0x_removed_def js_0x)
next
  case (Cons c cs)
  show ?case
  proof (cases "take 2 (c # cs) = (js ''0x'')")
    case True
    then have "c # cs = [] @ (js ''0x'') @ drop 2 (c # cs)"
      by (metis append_Nil append_take_drop_id)
    moreover from True have "js_replace (js ''0x'') [] (c # cs) = [] @ drop 2 (c # cs)"
      by (simp add: js_replace_0x_Cons del: js_replace.simps)
    ultimately show ?thesis
      unfolding first_0x_removed_def by (intro disjI1 exI conjI) (assumption, simp, assumption)
  next
    case False
    have r: "js_replace (js ''0x'') [] (c # cs) = c # js_replace (js ''0x'') [] cs"
      unfolding js_replace_0x_Cons using False by (rule if_not_P)
    from Cons.IH consider
      (occ) a b where "cs = a @ (js ''0x'') @ b" "\<forall>i<length a. take 2 (drop i cs) \<noteq> (js ''0x'')"
        "js_replace (js ''0x'') [] cs = a @ b"
      | (none) "\<forall>i. take 2 (drop i cs) \<noteq> (js ''0x'')" "js_replace (js ''0x'') [] cs = cs"
      unfolding first_0x_removed_def by blast
    then show ?thesis
    proof cases
      case occ
      have "\<forall>i<length (c # a). take 2 (drop i (c # cs)) \<noteq> (js ''0x'')"
      proof (intro allI impI)
        fix i assume "i < length (c # a)"
        then show "take 2 (drop i (c # cs)) \<noteq> (js ''0x'')"
          using False occ(2) by (cases i) auto
      qed
      moreover have "c # cs = (c # a) @ (js ''0x'') @ b" using occ(1) by simp
      moreover have "js_replace (js ''0x'') [] (c # cs) = (c # a) @ b" using r occ(3) by simp
      ultimately show ?thesis
        unfolding first_0x_removed_def by blast
    next
      case none
      have "\<forall>i. take 2 (drop i (c # cs)) \<noteq> (js ''0x'')"
      proof
        fix i show "take 2 (drop i (c # cs)) \<noteq> (js ''0x'')"
          using False none(1) by (cases i) auto
      qed
      then show ?thesis
        unfolding first_0x_removed_def using r none(2) by simp
    qed
  qed
qed

lemma first_0x_removed_unique:
  assumes "first_0x_removed s t"
  shows "t = js_replace (js ''0x'') [] s"
proof -
  from assms consider
    (occ) a b where "s = a @ (js ''0x'') @ b" "\<forall>i<length a. take 2 (drop i s) \<noteq> (js ''0x'')" "t = a @ b"
    | (none) "\<forall>i. take 2 (drop i s) \<noteq> (js ''0x'')" "t = s"
    unfolding first_0x_removed_def by blast
  then show ?thesis
  proof cases
    case occ
    from occ(1,2) have "\<forall>i<length a. take 2 (drop i (a @ (js ''0x'') @ b)) \<noteq> (js ''0x'')"
      by (simp only:)
    then have "js_replace (js ''0x'') [] (a @ (js ''0x'') @ b) = a @ [] @ b"
      by (rule js_replace_0x_first)
    with occ(1,3) show ?thesis by simp
  next
    case none
    then show ?thesis
      using js_replace_0x_none [of s "[]"] by simp
  qed
qed

lemma length_takeWhile_filter: "length (takeWhile P xs) \<le> length (filter P xs)"
  by (induction xs) auto

lemma length_filter_take: "length (filter P (take n xs)) \<le> length (filter P xs)"
  by (metis append_take_drop_id filter_append length_append le_add1)

lemma no_0x_without_x:
  assumes "0x78 \<notin> set s"
  shows "\<not> contains_0x s"
proof
  assume "contains_0x s"
  then obtain i where e: "take 2 (drop i s) = js ''0x''"
    unfolding contains_0x_def by blast
  have "set (take 2 (drop i s)) \<subseteq> set s"
    by (meson set_take_subset set_drop_subset subset_trans)
  with e have "0x78 \<in> set s" by (auto simp: js_0x)
  with assms show False by simp
qed

lemma js_replace_strip_prefix:
  assumes "\<not> contains_0x (strip_0x_prefix s)"
  shows "js_replace (js ''0x'') [] s = strip_0x_prefix s"
proof (cases "take 2 s = js ''0x''")
  case True
  then have "s \<noteq> []" by (auto simp: js_0x)
  then obtain c cs where s: "s = c # cs" by (cases s) auto
  have "js_replace (js ''0x'') [] (c # cs) = [] @ drop 2 (c # cs)"
    unfolding js_replace_0x_Cons using True [unfolded s] by (rule if_P)
  with True s show ?thesis
    by (simp add: strip_0x_prefix_def del: js_replace.simps)
next
  case False
  with assms have "\<forall>i. take 2 (drop i s) \<noteq> js ''0x''"
    by (simp add: strip_0x_prefix_def contains_0x_def)
  then have "js_replace (js ''0x'') [] s = s" by (rule js_replace_0x_none)
  with False show ?thesis by (simp add: strip_0x_prefix_def)
qed

section \<open>The cipher, the buffers and the partial read\<close>

lemma length_xor_keystream: "length (xor_keystream ks key iv off chunk) = length chunk"
  by (simp add: xor_keystream_def)

lemma nth_xor_keystream:
  "i < length chunk \<Longrightarrow> xor_keystream ks key iv off chunk ! i = chunk ! i XOR ks key iv (off + i)"
  by (simp add: xor_keystream_def)

lemma xor_keystream_twice:
  "xor_keystream ks key iv off (xor_keystream ks key iv off chunk) = chunk"
proof (rule nth_equalityI)
  show "length (xor_keystream ks key iv off (xor_keystream ks key iv off chunk)) = length chunk"
    by (simp add: length_xor_keystream)
next
  fix i assume "i < length (xor_keystream ks key iv off (xor_keystream ks key iv off chunk))"
  then have i: "i < length chunk" by (simp add: length_xor_keystream)
  then show "xor_keystream ks key iv off (xor_keystream ks key iv off chunk) ! i = chunk ! i"
    by (simp add: nth_xor_keystream length_xor_keystream bit.xor_left_self ac_simps)
qed

lemma encryptBytes_eq:
  "encryptBytes ks data note sig =
     (if length (Buffer_from_hex note) \<noteq> 16 then Inl InvalidIV
      else if length (signedEncryptionNoteToKey sig) \<noteq> 32 then Inl InvalidKeyLength
      else Inr (Buffer_from_hex note
                @ xor_keystream ks (signedEncryptionNoteToKey sig) (Buffer_from_hex note) 0 data))"
  by (simp add: encryptBytes_def createCipher_def createCipheriv_def cipher_update_def
      cipher_final_def Let_def)

lemma decryptBytes_eq:
  "decryptBytes ks data sig =
     (if length (take 16 data) \<noteq> 16 then Inl InvalidIV
      else if length (signedEncryptionNoteToKey sig) \<noteq> 32 then Inl InvalidKeyLength
      else Inr (xor_keystream ks (signedEncryptionNoteToKey sig) (take 16 data) 0 (drop 16 data)))"
  by (simp add: decryptBytes_def createDecipher_def createDecipheriv_def cipher_update_def
      cipher_final_def Let_def ENCRYPTION_IV_SIZE_def)

lemma zero_note_length: "length (Buffer_from_hex (Str zero_note)) = 16"
  by code_simp

lemma ones_signature_length: "length (signedEncryptionNoteToKey ones_signature) = 32"
  by code_simp

lemma unhex_hexDigit_upto: "list_all (\<lambda>n. unhex (hexDigit n) = Some n) [0..<16]"
  by code_simp

lemma unhex_hexDigit: "n < 16 \<Longrightarrow> unhex (hexDigit n) = Some n"
  using unhex_hexDigit_upto by (simp add: list_all_iff del: upt_rec_numeral)

lemma hexDecode_toHex: "hexDecode (toHex bs) = bs"
proof (induction bs)
  case Nil
  then show ?case by (simp add: toHex_def)
next
  case (Cons b bs)
  have "toHex (b # bs) = hexDigit (unat b div 16) # hexDigit (unat b mod 16) # toHex bs"
    by (simp add: toHex_def)
  moreover have "unat b div 16 < 16"
    using unsigned_less [of b, where 'a = nat] by (simp add: less_mult_imp_div_less)
  moreover have "(of_nat (16 * (unat b div 16) + unat b mod 16) :: byte) = b"
    by simp
  ultimately show ?case
    using Cons.IH by (simp add: unhex_hexDigit)
qed

lemma length_toHex: "length (toHex bs) = 2 * length bs"
  by (induction bs) (simp_all add: toHex_def)

lemma readEncryptionNoteFromFile_regular:
  assumes "files w f = Some (File content)"
  shows "readEncryptionNoteFromFile w f =
     (Inr (toHex (take 16 content @ replicate (16 - length content) 0)),
      w\<lparr>next_fd := Suc (next_fd w),
        trace := trace w @ [Opened f (next_fd w), ReadAt (next_fd w) 0 16, Closed (next_fd w)]\<rparr>)"
  using assms
  by (simp add: readEncryptionNoteFromFile_def partialReadSync_def openSync_def readSync_def
      closeSync_def ENCRYPTION_IV_SIZE_def Let_def min_def)

lemma readEncryptionNoteFromFile_missing:
  assumes "files w f = None"
  shows "readEncryptionNoteFromFile w f = (Inl ENOENT, w)"
  using assms
  by (simp add: readEncryptionNoteFromFile_def partialReadSync_def openSync_def
      ENCRYPTION_IV_SIZE_def)

lemma partialReadSync_directory:
  assumes "files w f = Some Dir" and "0 \<le> start" and "start < end" and "end - start \<le> 0x3fffffff"
  shows "partialReadSync w f start end =
     (Inl EISDIR,
      w\<lparr>open_fds := (next_fd w, f) # open_fds w,
        next_fd := Suc (next_fd w),
        trace := trace w @ [Opened f (next_fd w), ReadAt (next_fd w) (nat start) (nat (end - start))]\<rparr>)"
  using assms
  by (simp add: partialReadSync_def openSync_def readSync_def Let_def)

section \<open>The stream pipeline\<close>

lemma chunks_of_Nil: "chunks_of n [] = []"
  by (simp add: chunks_of.simps)

lemma chunks_of_single:
  "content \<noteq> [] \<Longrightarrow> length content \<le> n \<Longrightarrow> chunks_of n content = [content]"
  by (subst chunks_of.simps) (cases content; auto simp: chunks_of_Nil)

lemma concat_chunks_of: "0 < n \<Longrightarrow> concat (chunks_of n content) = content"
proof (induction n content rule: chunks_of.induct)
  case (1 n content)
  then show ?case
    by (subst chunks_of.simps) auto
qed

lemma concat_push: "concat (push out chunk) = concat out @ chunk"
  by (simp add: push_def)

lemma run_prepend_prepended:
  "this_prepended this \<Longrightarrow> concat (run_prepend this out chunks) = concat out @ concat chunks"
  by (induction chunks arbitrary: out) (simp_all add: transform_prepend_def concat_push)

lemma run_prepend_header_once:
  "concat (run_prepend (new_PrependInitializationVector v) [] (chunk # chunks))
     = v @ concat (chunk # chunks)"
  by (simp add: new_PrependInitializationVector_def transform_prepend_def
      run_prepend_prepended concat_push)

lemma xor_keystream_Nil: "xor_keystream ks key v off [] = []"
  by (simp add: xor_keystream_def)

lemma xor_keystream_append:
  "xor_keystream ks key v off (a @ b)
     = xor_keystream ks key v off a @ xor_keystream ks key v (off + length a) b"
proof (rule nth_equalityI)
  show "length (xor_keystream ks key v off (a @ b))
      = length (xor_keystream ks key v off a @ xor_keystream ks key v (off + length a) b)"
    by (simp add: length_xor_keystream)
next
  fix i assume "i < length (xor_keystream ks key v off (a @ b))"
  then have i: "i < length a + length b" by (simp add: length_xor_keystream)
  show "xor_keystream ks key v off (a @ b) ! i
      = (xor_keystream ks key v off a @ xor_keystream ks key v (off + length a) b) ! i"
  proof (cases "i < length a")
    case True
    then show ?thesis
      using i by (simp add: nth_xor_keystream length_xor_keystream nth_append)
  next
    case False
    then have "i - length a < length b" using i by simp
    then show ?thesis
      using i False by (simp add: nth_xor_keystream length_xor_keystream nth_append ac_simps)
  qed
qed

lemma run_cipher_concat:
  assumes "\<not> c_finalized c"
  shows "\<exists>out'. run_cipher ks c out chunks = Inr out'
           \<and> concat out' = concat out @ xor_keystream ks (c_key c) (c_iv c) (c_offset c) (concat chunks)"
  using assms
proof (induction chunks arbitrary: c out)
  case Nil
  then show ?case
    by (simp add: cipher_final_def push_def xor_keystream_Nil)
next
  case (Cons chunk chunks)
  let ?c' = "c\<lparr>c_offset := c_offset c + length chunk\<rparr>"
  let ?out' = "push out (xor_keystream ks (c_key c) (c_iv c) (c_offset c) chunk)"
  have "\<not> c_finalized ?c'" using Cons.prems by simp
  from Cons.IH [OF this, of ?out'] Cons.prems show ?case
    by (simp add: cipher_update_def concat_push xor_keystream_append)
qed

lemma files_write_chunks:
  "files w p = Some (File old)
   \<Longrightarrow> files (write_chunks w p chunks) p = Some (File (old @ concat chunks))"
  by (induction chunks arbitrary: w old) (simp_all add: write_chunk_def)

text \<open>
  For a file that is not empty, and an output path other than the input path, the stream
  pipeline writes the payload that \<open>encryptBytes\<close> returns for its content: the note
  once, then the ciphertext.
\<close>

lemma encryptFileAsStream_nonempty:
  assumes "files w inputFileName = Some (File content)" and "content \<noteq> []"
    and "files w outputFileName \<noteq> Some Dir"
    and "encryptBytes ks content note sig = Inr payload"
    and "outputFileName \<noteq> inputFileName"
  shows "fst (encryptFileAsStream ks w inputFileName outputFileName note sig) = Inr ()
     \<and> files (snd (encryptFileAsStream ks w inputFileName outputFileName note sig)) outputFileName
         = Some (File payload)"
proof -
  let ?v = "Buffer_from_hex note"
  let ?key = "signedEncryptionNoteToKey sig"
  let ?c = "\<lparr>c_key = ?key, c_iv = ?v, c_offset = 0, c_finalized = False\<rparr>"
  from assms(4) have v: "length ?v = 16" and k: "length ?key = 32"
    and p: "payload = ?v @ xor_keystream ks ?key ?v 0 content"
    by (auto simp: encryptBytes_eq split: if_splits)
  have cc: "createCipher note sig = Inr ?c"
    using v k by (simp add: createCipher_def createCipheriv_def)
  obtain encrypted where e: "run_cipher ks ?c [] (chunks_of highWaterMark content) = Inr encrypted"
    and ce: "concat encrypted = xor_keystream ks ?key ?v 0 content"
    using run_cipher_concat [of ?c ks "[]" "chunks_of highWaterMark content"]
    by (auto simp: concat_chunks_of highWaterMark_def)
  have "concat encrypted \<noteq> []"
    using ce assms(2) length_xor_keystream [of ks ?key ?v 0 content] by auto
  then obtain x xs where enc: "encrypted = x # xs"
    by (cases encrypted) auto
  have pre: "concat (run_prepend (new_PrependInitializationVector ?v) [] encrypted) = payload"
    unfolding enc run_prepend_header_once using ce p enc by simp
  show ?thesis
    using assms(1,3,5) cc e pre
    by (auto simp: encryptFileAsStream_def createWriteStream_def Let_def files_write_chunks
        split: option.splits node.splits)
qed

lemma createCipher_samples:
  "createCipher (Str zero_note) ones_signature
     = Inr \<lparr>c_key = replicate 32 17, c_iv = replicate 16 0, c_offset = 0, c_finalized = False\<rparr>"
  by code_simp

lemma sample_files:
  "files sample_world ''empty.txt'' = Some (File [])"
  "files sample_world ''empty.txt.eth.encrypted'' = None"
  by (simp_all add: sample_world_def)

lemma encryptFileAsStream_empty:
  "encryptFileAsStream sample_keystream sample_world ''empty.txt''
             ''empty.txt.eth.encrypted'' (Str zero_note) ones_signature
   = (Inr (), sample_world\<lparr>files := (files sample_world)(''empty.txt.eth.encrypted'' \<mapsto> File []),
        trace := [ReadStreamCreated ''empty.txt'', CipherCreated,
                  WriteStreamCreated ''empty.txt.eth.encrypted'']\<rparr>)"
  by (simp add: encryptFileAsStream_def createCipher_samples sample_files chunks_of_Nil
      createWriteStream_def cipher_final_def push_def new_PrependInitializationVector_def Let_def)
    (simp add: sample_world_def)

section \<open>The trace of an encryption\<close>

lemma happens_before_Nil: "happens_before P Q []"
  by (simp add: happens_before_def)

lemma happens_before_skip:
  assumes "\<not> Q e" and "happens_before P Q es"
  shows "happens_before P Q (e # es)"
  unfolding happens_before_def
proof (intro allI impI)
  fix n assume n: "n < length (e # es)" and q: "Q ((e # es) ! n)"
  from q assms(1) obtain k where k: "n = Suc k" by (cases n) auto
  with n q have "k < length es" "Q (es ! k)" by simp_all
  with assms(2) obtain m where "m < k" "P (es ! m)"
    unfolding happens_before_def by blast
  then have "Suc m < n \<and> P ((e # es) ! Suc m)" using k by simp
  then show "\<exists>m<n. P ((e # es) ! m)" by blast
qed

lemma happens_before_found:
  assumes "P e" and "\<not> Q e"
  shows "happens_before P Q (e # es)"
  unfolding happens_before_def
proof (intro allI impI)
  fix n assume "n < length (e # es)" and q: "Q ((e # es) ! n)"
  from q assms(2) have "0 < n" by (cases n) auto
  with assms(1) show "\<exists>m<n. P ((e # es) ! m)" by auto
qed

lemma happens_before_none:
  assumes "\<forall>e\<in>set es. \<not> Q e"
  shows "happens_before P Q es"
  using assms by (simp add: happens_before_def)

lemma trace_write_chunks:
  "trace (write_chunks w p chunks) = trace w @ map (ChunkWritten p) chunks"
  by (induction chunks arbitrary: w) (simp_all add: write_chunk_def)

lemma files_write_chunks_other:
  "q \<noteq> p \<Longrightarrow> files (write_chunks w p chunks) q = files w q"
  by (induction chunks arbitrary: w) (simp_all add: write_chunk_def)

lemma trace_encryptFileAsStream:
  "(\<exists>chunks. trace (snd (encryptFileAsStream ks w i out note sig))
       = trace w @ [ReadStreamCreated i, CipherCreated, WriteStreamCreated out]
           @ map (ChunkWritten out) chunks)
   \<or> trace (snd (encryptFileAsStream ks w i out note sig)) = trace w @ [ReadStreamCreated i]"
proof (cases "createCipher note sig")
  case (Inl e)
  then show ?thesis by (simp add: encryptFileAsStream_def)
next
  case c: (Inr c)
  let ?t = "trace (snd (encryptFileAsStream ks w i out note sig))"
  let ?base = "trace w @ [ReadStreamCreated i, CipherCreated, WriteStreamCreated out]"
  have "\<exists>chunks. ?t = ?base @ map (ChunkWritten out) chunks"
  proof (cases "files w out = Some Dir")
    case True
    with c have "?t = ?base @ map (ChunkWritten out) []"
      by (simp add: encryptFileAsStream_def createWriteStream_def Let_def)
    then show ?thesis by (rule exI)
  next
    case notdir: False
    then have cw: "createWriteStream (w\<lparr>trace := (trace w @ [ReadStreamCreated i]) @ [CipherCreated]\<rparr>) out
        = (Inr (), w\<lparr>files := (files w)(out \<mapsto> File []), trace := ?base\<rparr>)"
      by (auto simp: createWriteStream_def split: option.splits node.splits)
    show ?thesis
    proof (cases "((files w)(out \<mapsto> File [])) i")
      case None
      with c cw have "?t = ?base @ map (ChunkWritten out) []"
        by (simp add: encryptFileAsStream_def Let_def del: fun_upd_apply)
      then show ?thesis by (rule exI)
    next
      case (Some n)
      show ?thesis
      proof (cases n)
        case Dir
        with Some c cw have "?t = ?base @ map (ChunkWritten out) []"
          by (simp add: encryptFileAsStream_def Let_def del: fun_upd_apply)
        then show ?thesis by (rule exI)
      next
        case (File content)
        show ?thesis
        proof (cases "run_cipher ks c [] (chunks_of highWaterMark content)")
          case (Inl e)
          with File Some c cw have "?t = ?base @ map (ChunkWritten out) []"
            by (simp add: encryptFileAsStream_def Let_def del: fun_upd_apply)
          then show ?thesis by (rule exI)
        next
          case (Inr encrypted)
          with File Some c cw have "?t = ?base @ map (ChunkWritten out)
              (run_prepend (new_PrependInitializationVector (Buffer_from_hex note)) [] encrypted)"
            by (simp add: encryptFileAsStream_def Let_def trace_write_chunks del: fun_upd_apply)
          then show ?thesis by (rule exI)
        qed
      qed
    qed
  qed
  then show ?thesis by simp
qed

lemma processFileEncryption_declined:
  assumes "signer_declines provider (generateEncryptionNote randomBytes)"
  shows "\<exists>message address.
           processFileEncryption ks randomBytes w fileName provider opts
             = (Inr (), w\<lparr>trace := trace w @ [SignRequested message address, SignatureRefused]\<rparr>)"
proof (cases provider)
  case EmptyProvider
  with assms show ?thesis by (simp add: signer_declines_def)
next
  case (Web3 address sign)
  let ?m = "ETH_ENCRYPT_MESSAGE @ generateEncryptionNote randomBytes"
  obtain err sg where r: "sign ?m address = (err, sg)" by (cases "sign ?m address")
  with assms Web3 have "sg = None \<or> sg = Some []"
    by (auto simp: signer_declines_def split: option.splits)
  with Web3 r have "processFileEncryption ks randomBytes w fileName provider opts
      = (Inr (), w\<lparr>trace := trace w @ [SignRequested ?m address, SignatureRefused]\<rparr>)"
    by (auto simp: processFileEncryption_def signEncryptionNote_def handleRuntimeError_def Let_def)
  then show ?thesis by blast
qed

lemma processFileEncryption_trace:
  assumes "trace w = []"
  shows "trace (snd (processFileEncryption ks randomBytes w fileName provider opts)) = []
    \<or> (\<exists>m a. trace (snd (processFileEncryption ks randomBytes w fileName provider opts))
          = [SignRequested m a, SignatureRefused])
    \<or> (\<exists>m a s. trace (snd (processFileEncryption ks randomBytes w fileName provider opts))
          = [SignRequested m a, SignatureObtained s])
    \<or> (\<exists>m a s. trace (snd (processFileEncryption ks randomBytes w fileName provider opts))
          = [SignRequested m a, SignatureObtained s, ReadStreamCreated fileName])
    \<or> (\<exists>m a s out chunks. trace (snd (processFileEncryption ks randomBytes w fileName provider opts))
          = [SignRequested m a, SignatureObtained s, ReadStreamCreated fileName, CipherCreated,
             WriteStreamCreated out] @ map (ChunkWritten out) chunks)"
    (is "?t = [] \<or> ?refused \<or> ?obtained \<or> ?nocipher \<or> ?full")
proof (cases provider)
  case EmptyProvider
  with assms show ?thesis by (simp add: processFileEncryption_def)
next
  case (Web3 address sign)
  let ?note = "generateEncryptionNote randomBytes"
  let ?m = "ETH_ENCRYPT_MESSAGE @ ?note"
  let ?out = "case opt_output opts of
                None \<Rightarrow> generateDefaultOutputFile_encrypt fileName
              | Some out \<Rightarrow> if out \<noteq> [] then out else generateDefaultOutputFile_encrypt fileName"
  obtain err sg where r: "sign ?m address = (err, sg)" by (cases "sign ?m address")
  show ?thesis
  proof (cases "sg = None \<or> sg = Some []")
    case True
    with Web3 r have "signer_declines provider ?note"
      by (auto simp: signer_declines_def)
    from processFileEncryption_declined [OF this, of ks w fileName opts] assms
    have ?refused by auto
    then show ?thesis by blast
  next
    case False
    then obtain s where s: "sg = Some s" "s \<noteq> []" by (cases sg) auto
    let ?w1 = "w\<lparr>trace := [SignRequested ?m address, SignatureObtained s]\<rparr>"
    have p: "processFileEncryption ks randomBytes w fileName provider opts
        = (case resolveOutputFile ?w1 ?out 0 of
             None \<Rightarrow> (Inl Diverges, ?w1)
           | Some resolved \<Rightarrow> encryptFileAsStream ks ?w1 fileName resolved (Str ?note) s)"
      using Web3 r s assms
      by (simp add: processFileEncryption_def signEncryptionNote_def Let_def
          cong: option.case_cong)
    show ?thesis
    proof (cases "resolveOutputFile ?w1 ?out 0")
      case None
      with p have ?obtained by simp
      then show ?thesis by blast
    next
      case (Some resolved)
      with p have e: "processFileEncryption ks randomBytes w fileName provider opts
          = encryptFileAsStream ks ?w1 fileName resolved (Str ?note) s"
        by simp
      from trace_encryptFileAsStream [of ks ?w1 fileName resolved "Str ?note" s]
      have "?full \<or> ?nocipher"
        unfolding e by (elim disjE exE) (simp_all, blast)
      then show ?thesis by blast
    qed
  qed
qed

lemma signature_before_cipher_trace:
  "happens_before is_signature is_cipher (SignRequested m a # SignatureObtained s # rest)"
  by (rule happens_before_skip, simp, rule happens_before_found, simp_all)

lemma cipher_before_output_trace:
  "happens_before is_cipher is_output
     (SignRequested m a # SignatureObtained s # ReadStreamCreated f # CipherCreated # rest)"
  by (rule happens_before_skip, simp, rule happens_before_skip, simp,
      rule happens_before_skip, simp, rule happens_before_found, simp_all)

lemma sample_resolve:
  "resolveOutputFile (sample_world\<lparr>trace := t\<rparr>) ''hello.txt.eth.encrypted'' 0
     = Some ''hello-dup-1.txt.eth.encrypted''"
  by code_simp

lemma sample_note: "generateEncryptionNote (replicate 16 0) = zero_note"
  by code_simp

lemma sample_encrypted_chunk:
  "xor_keystream sample_keystream (replicate 32 17) (replicate 16 0) 0 hello_world
     = [72, 68, 78, 79, 75, 5, 81, 72, 90, 69, 78]"
  by code_simp

lemma sample_run:
  "processFileEncryption sample_keystream (replicate 16 0) sample_world ''hello.txt''
                 (Web3 sample_address sample_signer) sample_options
   = (Inr (),
      sample_world\<lparr>files := (files sample_world)
          (''hello-dup-1.txt.eth.encrypted'' \<mapsto> File hello_payload),
        trace := [SignRequested (ETH_ENCRYPT_MESSAGE @ zero_note) sample_address,
      SignatureObtained ones_signature,
      ReadStreamCreated ''hello.txt'', CipherCreated,
      WriteStreamCreated ''hello-dup-1.txt.eth.encrypted'',
      ChunkWritten ''hello-dup-1.txt.eth.encrypted'' (replicate 16 0),
      ChunkWritten ''hello-dup-1.txt.eth.encrypted'' [72, 68, 78, 79, 75, 5, 81, 72, 90, 69, 78]]\<rparr>)"
proof -
  have t: "trace sample_world = []" and f: "files sample_world ''hello.txt'' = Some (File hello_world)"
    and o: "files sample_world ''hello-dup-1.txt.eth.encrypted'' = None"
    by (simp_all add: sample_world_def)
  have n: "ones_signature \<noteq> []" by (simp add: ones_signature_def js_def)
  have c: "chunks_of highWaterMark hello_world = [hello_world]"
    by (rule chunks_of_single) (simp_all add: hello_world_def highWaterMark_def)
  have h: "hello_world \<noteq> []" by (simp add: hello_world_def)
  have z: "hexDecode zero_note = replicate 16 0" by code_simp
  show ?thesis
    using n h
    by (simp add: processFileEncryption_def signEncryptionNote_def sample_signer_def
        sample_options_def generateDefaultOutputFile_encrypt_def FILE_EXTENSION_def
        sample_note t sample_resolve encryptFileAsStream_def createCipher_samples
        createWriteStream_def o f c cipher_update_def cipher_final_def push_def
        new_PrependInitializationVector_def transform_prepend_def write_chunk_def z
        sample_encrypted_chunk hello_payload_def Let_def)
qed

section \<open>Claims about key derivation\<close>

lemma hex_accepted_low:
  assumes "unat c < 256"
  shows "hex_accepted c \<longleftrightarrow> is_hex_char c"
proof -
  from assms have "low_byte c = unat c"
    by (simp add: low_byte_def)
  then show ?thesis
    by (simp add: hex_accepted_def)
qed

text \<open>
  Claim C10.  For every input string, \<open>signedEncryptionNoteToKey\<close> returns a buffer and
  raises no error (the function is total and has no error result): the text it decodes is
  the input without its first occurrence of \<open>0x\<close>, wherever that is, cut to at most 64
  characters; the bytes are those written by the pairs of characters before the first
  invalid character.  A character is invalid when the decoder does not accept it, that is
  when its low byte is not the code of a hex character; a code unit above 255 is read by
  its low byte.  The key has half as many bytes as that run of accepted characters is
  long, so at most 32, and fewer (or none) for a short or non-hex input.
\<close>

theorem signedEncryptionNoteToKey_returns_buffer:
  "(\<exists>t. first_0x_removed sig t) \<and>
   (\<forall>t. first_0x_removed sig t \<longrightarrow>
      signedEncryptionNoteToKey sig = decode_pairs (takeWhile hex_accepted (take 64 t))
      \<and> length (signedEncryptionNoteToKey sig) = length (takeWhile hex_accepted (take 64 t)) div 2
      \<and> length (signedEncryptionNoteToKey sig) \<le> 32)"
proof (intro conjI allI impI)
  show "\<exists>t. first_0x_removed sig t"
    using first_0x_removed_js_replace by blast
next
  fix t assume "first_0x_removed sig t"
  then have t: "t = js_replace (js ''0x'') [] sig" by (rule first_0x_removed_unique)
  then show "signedEncryptionNoteToKey sig = decode_pairs (takeWhile hex_accepted (take 64 t))"
    by (simp add: signedEncryptionNoteToKey_def js_substring0_def ENCRYPTION_KEY_SIZE_def
        hexDecode_takeWhile)
  from t show l: "length (signedEncryptionNoteToKey sig) = length (takeWhile hex_accepted (take 64 t)) div 2"
    by (simp add: signedEncryptionNoteToKey_def js_substring0_def ENCRYPTION_KEY_SIZE_def
        length_hexDecode)
  have "length (takeWhile hex_accepted (take 64 t)) \<le> 64"
    by (metis length_takeWhile_le length_take min.cobounded2 le_trans)
  with l show "length (signedEncryptionNoteToKey sig) \<le> 32" by simp
qed

text \<open>
  The theorem at the input \<open>ab0xcdzz\<close>: the \<open>0x\<close> in the middle is removed, \<open>abcd\<close> is
  decoded and \<open>zz\<close> stops the decoding, so the key has two bytes.  And at the input of the
  code units \<open>U+0161\<close>, \<open>U+0162\<close> and \<open>z\<close>: the first two are read as \<open>a\<close> and \<open>b\<close>.
\<close>

theorem signedEncryptionNoteToKey_returns_buffer_witness:
  "first_0x_removed (js ''ab0xcdzz'') (js ''abcdzz'')
   \<and> signedEncryptionNoteToKey (js ''ab0xcdzz'') = [0xab, 0xcd]
   \<and> length (signedEncryptionNoteToKey (js ''ab0xcdzz'')) \<le> 32
   \<and> first_0x_removed [0x161, 0x162, 0x7A] [0x161, 0x162, 0x7A]
   \<and> signedEncryptionNoteToKey [0x161, 0x162, 0x7A] = [0xab]"
proof -
  have "first_0x_removed (js ''ab0xcdzz'') (js_replace (js ''0x'') [] (js ''ab0xcdzz''))"
    by (rule first_0x_removed_js_replace)
  moreover have "js_replace (js ''0x'') [] (js ''ab0xcdzz'') = js ''abcdzz''"
    by code_simp
  ultimately have h: "first_0x_removed (js ''ab0xcdzz'') (js ''abcdzz'')" by simp
  have d: "decode_pairs (takeWhile hex_accepted (take 64 (js ''abcdzz''))) = [0xab, 0xcd]"
    by code_simp
  have "first_0x_removed [0x161, 0x162, 0x7A] (js_replace (js ''0x'') [] [0x161, 0x162, 0x7A])"
    by (rule first_0x_removed_js_replace)
  moreover have "js_replace (js ''0x'') [] [0x161, 0x162, 0x7A] = [0x161, 0x162, 0x7A :: jschar]"
    by code_simp
  ultimately have h': "first_0x_removed [0x161, 0x162, 0x7A] [0x161, 0x162, 0x7A]" by simp
  have d': "decode_pairs (takeWhile hex_accepted (take 64 [0x161, 0x162, 0x7A])) = [0xab]"
    by code_simp
  from signedEncryptionNoteToKey_returns_buffer [of "js ''ab0xcdzz''"]
       signedEncryptionNoteToKey_returns_buffer [of "[0x161, 0x162, 0x7A]"] h d h' d'
  show ?thesis by auto
qed

text \<open>
  Claim C6, as the specification states it, does not hold.  The signature of 63 times
  \<open>1\<close> followed by \<open>0x\<close> has no prefix and 64 hex characters; the \<open>0x\<close> at its end is
  removed, so its key has 31 bytes, and the key of the signature with \<open>ff\<close> appended has
  32 bytes, the last of them \<open>0x1f\<close>.
\<close>

theorem later_0x_changes_key:
  "64 \<le> length (filter is_hex_char (strip_0x_prefix (js ''1111111111111111111111111111111111111111111111111111111111111110x'')))
   \<and> length (signedEncryptionNoteToKey (js ''1111111111111111111111111111111111111111111111111111111111111110x'')) = 31
   \<and> length (signedEncryptionNoteToKey (js ''1111111111111111111111111111111111111111111111111111111111111110x'' @ js ''ff'')) = 32
   \<and> last (signedEncryptionNoteToKey (js ''1111111111111111111111111111111111111111111111111111111111111110x'' @ js ''ff'')) = 0x1f"
  by code_simp

text \<open>
  Claim C6, amended.  For every signature whose text after an optional \<open>0x\<close> prefix
  begins with 64 hex characters and holds no \<open>0x\<close>, the key of the signature and the key
  of the signature with \<open>ff\<close> appended are the same: the 32 bytes written by these 64
  characters.  Key derivation is a function of the signature text, so two calls with the
  same signature give the same key.
\<close>

theorem key_ignores_later_characters:
  assumes "64 \<le> length (strip_0x_prefix sig)"
    and "\<forall>c\<in>set (take 64 (strip_0x_prefix sig)). is_hex_char c"
    and "\<not> contains_0x (strip_0x_prefix sig)"
  shows "signedEncryptionNoteToKey (sig @ js ''ff'') = signedEncryptionNoteToKey sig
         \<and> signedEncryptionNoteToKey sig = decode_pairs (take 64 (strip_0x_prefix sig))
         \<and> length (signedEncryptionNoteToKey sig) = 32"
proof -
  have r: "js_replace (js ''0x'') [] sig = strip_0x_prefix sig"
    using assms(3) by (rule js_replace_strip_prefix)
  have "\<forall>c\<in>set (take 64 (strip_0x_prefix sig)). hex_accepted c"
    using assms(2) is_hex_char_accepted by blast
  then have tw: "takeWhile hex_accepted (take 64 (strip_0x_prefix sig)) = take 64 (strip_0x_prefix sig)"
    by (simp add: takeWhile_eq_all_conv)
  have k: "signedEncryptionNoteToKey sig = decode_pairs (take 64 (strip_0x_prefix sig))"
    by (simp add: signedEncryptionNoteToKey_def js_substring0_def ENCRYPTION_KEY_SIZE_def
        hexDecode_takeWhile r tw)
  have "length (signedEncryptionNoteToKey sig) = 32"
    using assms(1) by (simp add: k length_decode_pairs)
  moreover have "signedEncryptionNoteToKey (sig @ js ''ff'') = signedEncryptionNoteToKey sig"
    using assms(1) by (simp add: signedEncryptionNoteToKey_def js_substring0_def
        ENCRYPTION_KEY_SIZE_def js_replace_0x_append_ff r)
  ultimately show ?thesis using k by simp
qed

text \<open>The amended statement at a prefixed signature of 64 hex characters.\<close>

theorem key_ignores_later_characters_witness:
  "64 \<le> length (strip_0x_prefix (js ''0x000102030405060708090a0b0c0d0e0f101112131415161718191A1B1C1D1E1F''))
   \<and> list_all is_hex_char (take 64 (strip_0x_prefix (js ''0x000102030405060708090a0b0c0d0e0f101112131415161718191A1B1C1D1E1F'')))
   \<and> signedEncryptionNoteToKey (js ''0x000102030405060708090a0b0c0d0e0f101112131415161718191A1B1C1D1E1F'' @ js ''ff'') = signedEncryptionNoteToKey (js ''0x000102030405060708090a0b0c0d0e0f101112131415161718191A1B1C1D1E1F'')
   \<and> signedEncryptionNoteToKey (js ''0x000102030405060708090a0b0c0d0e0f101112131415161718191A1B1C1D1E1F'')
       = [0x00, 0x01, 0x02, 0x03, 0x04, 0x05, 0x06, 0x07, 0x08, 0x09, 0x0a, 0x0b, 0x0c, 0x0d,
          0x0e, 0x0f, 0x10, 0x11, 0x12, 0x13, 0x14, 0x15, 0x16, 0x17, 0x18, 0x19, 0x1a, 0x1b,
          0x1c, 0x1d, 0x1e, 0x1f]
   \<and> length (signedEncryptionNoteToKey (js ''0x000102030405060708090a0b0c0d0e0f101112131415161718191A1B1C1D1E1F'')) = 32"
proof -
  let ?sig = "js ''0x000102030405060708090a0b0c0d0e0f101112131415161718191A1B1C1D1E1F''"
  have s: "strip_0x_prefix ?sig = js ''000102030405060708090a0b0c0d0e0f101112131415161718191A1B1C1D1E1F''"
    by code_simp
  have h1: "64 \<le> length (strip_0x_prefix ?sig)"
    unfolding s by (simp add: length_js)
  have h2: "list_all is_hex_char (take 64 (strip_0x_prefix ?sig))"
    unfolding s by code_simp
  then have h3: "\<forall>c\<in>set (take 64 (strip_0x_prefix ?sig)). is_hex_char c"
    by (simp only: list_all_iff)
  have "list_all is_hex_char (strip_0x_prefix ?sig)"
    unfolding s by code_simp
  then have "0x78 \<notin> set (strip_0x_prefix ?sig)"
    using x_not_hex by (auto simp: list_all_iff)
  then have h4: "\<not> contains_0x (strip_0x_prefix ?sig)"
    by (rule no_0x_without_x)
  have d: "decode_pairs (take 64 (strip_0x_prefix ?sig))
       = [0x00, 0x01, 0x02, 0x03, 0x04, 0x05, 0x06, 0x07, 0x08, 0x09, 0x0a, 0x0b, 0x0c, 0x0d,
          0x0e, 0x0f, 0x10, 0x11, 0x12, 0x13, 0x14, 0x15, 0x16, 0x17, 0x18, 0x19, 0x1a, 0x1b,
          0x1c, 0x1d, 0x1e, 0x1f]"
    unfolding s by code_simp
  from key_ignores_later_characters [OF h1 h3 h4] h1 h2 d show ?thesis
    by simp
qed

text \<open>
  Claim C2, as the specification states it, does not hold: a signature with fewer than 64
  hex characters after the prefix is not rejected.  At the input \<open>0xabcd\<close> the function
  returns a key of two bytes.  At the input of 64 times the code unit \<open>U+0161\<close>, which
  holds no hex character, it returns a key of 32 bytes, each \<open>0xaa\<close>.
\<close>

theorem short_signature_not_rejected:
  "length (filter is_hex_char (strip_0x_prefix (js ''0xabcd''))) < 64
   \<and> signedEncryptionNoteToKey (js ''0xabcd'') = [0xab, 0xcd]
   \<and> length (signedEncryptionNoteToKey (js ''0xabcd'')) < 32
   \<and> length (filter is_hex_char (strip_0x_prefix (replicate 64 0x161))) < 64
   \<and> signedEncryptionNoteToKey (replicate 64 0x161) = replicate 32 0xaa"
  by code_simp

text \<open>
  Claim C2, amended.  For every signature string with fewer than 64 characters that the
  hex decoder accepts (the hex characters, and the characters whose low byte is the code
  of one) after stripping an optional \<open>0x\<close> prefix, \<open>signedEncryptionNoteToKey\<close> does
  not fail: it returns a key shorter than 32 bytes.  When the text after the prefix holds
  no \<open>0x\<close>, that key is written by the pairs of its characters before the first invalid
  one.
\<close>

theorem short_signature_gives_short_key:
  assumes "length (filter hex_accepted (strip_0x_prefix sig)) < 64"
  shows "length (signedEncryptionNoteToKey sig) < 32
     \<and> (\<not> contains_0x (strip_0x_prefix sig) \<longrightarrow>
          signedEncryptionNoteToKey sig
            = decode_pairs (takeWhile hex_accepted (take 64 (strip_0x_prefix sig))))"
proof (intro conjI impI)
  let ?t = "js_replace (js ''0x'') [] sig"
  have "length (filter hex_accepted ?t) \<le> length (filter hex_accepted (strip_0x_prefix sig))"
  proof (cases "take 2 sig = js ''0x''")
    case True
    then have "sig \<noteq> []" by (auto simp: js_0x)
    then obtain c cs where s: "sig = c # cs" by (cases sig) auto
    have "js_replace (js ''0x'') [] (c # cs) = [] @ drop 2 (c # cs)"
      unfolding js_replace_0x_Cons using True [unfolded s] by (rule if_P)
    with True s have "?t = strip_0x_prefix sig"
      by (simp add: strip_0x_prefix_def del: js_replace.simps)
    then show ?thesis by simp
  next
    case False
    then show ?thesis
      by (simp add: strip_0x_prefix_def length_filter_js_replace)
  qed
  moreover have "length (takeWhile hex_accepted (take 64 ?t)) \<le> length (filter hex_accepted ?t)"
    by (meson length_takeWhile_filter length_filter_take le_trans)
  ultimately have "length (takeWhile hex_accepted (take 64 ?t)) < 64"
    using assms by linarith
  then show "length (signedEncryptionNoteToKey sig) < 32"
    by (simp add: signedEncryptionNoteToKey_def js_substring0_def ENCRYPTION_KEY_SIZE_def
        length_hexDecode)
next
  assume "\<not> contains_0x (strip_0x_prefix sig)"
  then have "js_replace (js ''0x'') [] sig = strip_0x_prefix sig"
    by (rule js_replace_strip_prefix)
  then show "signedEncryptionNoteToKey sig
            = decode_pairs (takeWhile hex_accepted (take 64 (strip_0x_prefix sig)))"
    by (simp add: signedEncryptionNoteToKey_def js_substring0_def ENCRYPTION_KEY_SIZE_def
        hexDecode_takeWhile)
qed

text \<open>The amended statement at a signature of 62 hex characters without a prefix.\<close>

theorem short_signature_gives_short_key_witness:
  "length (filter hex_accepted (strip_0x_prefix (js ''000102030405060708090a0b0c0d0e0f101112131415161718191a1b1c1d1e''))) < 64
   \<and> length (signedEncryptionNoteToKey (js ''000102030405060708090a0b0c0d0e0f101112131415161718191a1b1c1d1e'')) < 32
   \<and> signedEncryptionNoteToKey (js ''000102030405060708090a0b0c0d0e0f101112131415161718191a1b1c1d1e'')
       = [0x00, 0x01, 0x02, 0x03, 0x04, 0x05, 0x06, 0x07, 0x08, 0x09, 0x0a, 0x0b, 0x0c, 0x0d,
          0x0e, 0x0f, 0x10, 0x11, 0x12, 0x13, 0x14, 0x15, 0x16, 0x17, 0x18, 0x19, 0x1a, 0x1b,
          0x1c, 0x1d, 0x1e]"
proof -
  have s: "strip_0x_prefix (js ''000102030405060708090a0b0c0d0e0f101112131415161718191a1b1c1d1e'') = js ''000102030405060708090a0b0c0d0e0f101112131415161718191a1b1c1d1e''"
    by code_simp
  have h: "length (filter hex_accepted (strip_0x_prefix (js ''000102030405060708090a0b0c0d0e0f101112131415161718191a1b1c1d1e''))) < 64"
    unfolding s by code_simp
  have "list_all is_hex_char (strip_0x_prefix (js ''000102030405060708090a0b0c0d0e0f101112131415161718191a1b1c1d1e''))"
    unfolding s by code_simp
  then have "0x78 \<notin> set (strip_0x_prefix (js ''000102030405060708090a0b0c0d0e0f101112131415161718191a1b1c1d1e''))"
    using x_not_hex by (auto simp: list_all_iff)
  then have n: "\<not> contains_0x (strip_0x_prefix (js ''000102030405060708090a0b0c0d0e0f101112131415161718191a1b1c1d1e''))"
    by (rule no_0x_without_x)
  have d: "decode_pairs (takeWhile hex_accepted (take 64 (strip_0x_prefix (js ''000102030405060708090a0b0c0d0e0f101112131415161718191a1b1c1d1e''))))
       = [0x00, 0x01, 0x02, 0x03, 0x04, 0x05, 0x06, 0x07, 0x08, 0x09, 0x0a, 0x0b, 0x0c, 0x0d,
          0x0e, 0x0f, 0x10, 0x11, 0x12, 0x13, 0x14, 0x15, 0x16, 0x17, 0x18, 0x19, 0x1a, 0x1b,
          0x1c, 0x1d, 0x1e]"
    unfolding s by code_simp
  from short_signature_gives_short_key [OF h] h n d show ?thesis
    by simp
qed

section \<open>Claims about the encrypted payload\<close>

text \<open>
  Claim C1.  Round trip: for every plaintext \<open>P\<close>, every note that gives 16 bytes and every
  signature that gives a key of 32 bytes, \<open>encryptBytes\<close> returns a payload, and
  \<open>decryptBytes\<close> on that payload with the same signature returns exactly \<open>P\<close>.  This
  holds for every keystream.
\<close>

theorem decrypt_encrypt_roundtrip:
  assumes "length (Buffer_from_hex note) = 16"
    and "length (signedEncryptionNoteToKey sig) = 32"
  shows "\<exists>payload. encryptBytes ks P note sig = Inr payload
           \<and> decryptBytes ks payload sig = Inr P"
proof -
  let ?iv = "Buffer_from_hex note"
  let ?key = "signedEncryptionNoteToKey sig"
  let ?payload = "?iv @ xor_keystream ks ?key ?iv 0 P"
  have e: "encryptBytes ks P note sig = Inr ?payload"
    using assms by (simp add: encryptBytes_eq)
  have t: "take 16 ?payload = ?iv" and d: "drop 16 ?payload = xor_keystream ks ?key ?iv 0 P"
    using assms(1) by simp_all
  have "decryptBytes ks ?payload sig = Inr P"
    unfolding decryptBytes_eq t d using assms by (simp add: xor_keystream_twice)
  with e show ?thesis by blast
qed

text \<open>The round trip at the plaintext \<open>hello world\<close>, the zero note and the key of \<open>0x11\<close> bytes.\<close>

theorem decrypt_encrypt_roundtrip_witness:
  "\<exists>payload. encryptBytes sample_keystream hello_world (Str zero_note) ones_signature = Inr payload
      \<and> decryptBytes sample_keystream payload ones_signature = Inr hello_world"
  using decrypt_encrypt_roundtrip [OF zero_note_length ones_signature_length] .

text \<open>
  Claim C4.  Every payload produced by \<open>encryptBytes\<close> has length \<open>16 + length P\<close>: the 16
  bytes of the note, then one ciphertext byte for each plaintext byte (the plaintext byte
  combined with the keystream byte of the same offset), and nothing after them.  A payload
  is produced exactly when the note gives 16 bytes and the signature a key of 32 bytes.
\<close>

theorem encrypted_payload_length:
  "((\<exists>payload. encryptBytes ks P note sig = Inr payload) \<longleftrightarrow>
      length (Buffer_from_hex note) = 16 \<and> length (signedEncryptionNoteToKey sig) = 32)
   \<and> (\<forall>payload. encryptBytes ks P note sig = Inr payload \<longrightarrow>
          length payload = 16 + length P
          \<and> take 16 payload = Buffer_from_hex note
          \<and> length (drop 16 payload) = length P
          \<and> (\<forall>i<length P. payload ! (16 + i)
                 = P ! i XOR ks (signedEncryptionNoteToKey sig) (Buffer_from_hex note) i))"
proof (intro conjI allI impI)
  show "(\<exists>payload. encryptBytes ks P note sig = Inr payload) \<longleftrightarrow>
      length (Buffer_from_hex note) = 16 \<and> length (signedEncryptionNoteToKey sig) = 32"
    by (auto simp: encryptBytes_eq)
next
  fix payload assume e: "encryptBytes ks P note sig = Inr payload"
  let ?iv = "Buffer_from_hex note"
  let ?key = "signedEncryptionNoteToKey sig"
  from e have iv: "length ?iv = 16"
    and p: "payload = ?iv @ xor_keystream ks ?key ?iv 0 P"
    by (auto simp: encryptBytes_eq split: if_splits)
  show "length payload = 16 + length P"
    using iv p by (simp add: length_xor_keystream)
  show "take 16 payload = ?iv"
    using iv p by simp
  show "length (drop 16 payload) = length P"
    using iv p by (simp add: length_xor_keystream)
  fix i assume "i < length P"
  then show "payload ! (16 + i) = P ! i XOR ks ?key ?iv i"
    using iv p by (simp add: nth_append nth_xor_keystream)
qed

text \<open>The payload of \<open>hello world\<close> has 16 + 11 bytes.\<close>

theorem encrypted_payload_length_witness:
  "encryptBytes sample_keystream hello_world (Str zero_note) ones_signature
     = Inr (replicate 16 0 @ [72, 68, 78, 79, 75, 5, 81, 72, 90, 69, 78])
   \<and> length (replicate 16 (0 :: byte) @ [72, 68, 78, 79, 75, 5, 81, 72, 90, 69, 78 :: byte])
     = 16 + length hello_world"
proof -
  have e: "encryptBytes sample_keystream hello_world (Str zero_note) ones_signature
     = Inr (replicate 16 0 @ [72, 68, 78, 79, 75, 5, 81, 72, 90, 69, 78])"
    by code_simp
  from encrypted_payload_length [of sample_keystream hello_world "Str zero_note" ones_signature] e
  show ?thesis by blast
qed

text \<open>
  Claim C5.  The first 16 bytes of a payload produced by \<open>encryptBytes\<close> with a note are
  the bytes of that note; \<open>readEncryptionNoteFromEncryptedBytes\<close> and
  \<open>readEncryptionNoteFromFile\<close> return these 16 bytes as hex text, whatever follows them
  in the buffer or the file; the file is read by one request for 16 bytes at position 0.
\<close>

theorem note_is_payload_prefix:
  assumes "encryptBytes ks P note sig = Inr payload"
  shows "take 16 payload = Buffer_from_hex note
     \<and> readEncryptionNoteFromEncryptedBytes payload = toHex (Buffer_from_hex note)
     \<and> hexDecode (readEncryptionNoteFromEncryptedBytes payload) = Buffer_from_hex note
     \<and> (\<forall>other. readEncryptionNoteFromEncryptedBytes (take 16 payload @ other)
            = readEncryptionNoteFromEncryptedBytes payload)
     \<and> (\<forall>w f other. files w f = Some (File (take 16 payload @ other)) \<longrightarrow>
            fst (readEncryptionNoteFromFile w f) = Inr (readEncryptionNoteFromEncryptedBytes payload)
            \<and> trace (snd (readEncryptionNoteFromFile w f))
                = trace w @ [Opened f (next_fd w), ReadAt (next_fd w) 0 16, Closed (next_fd w)])"
proof -
  let ?iv = "Buffer_from_hex note"
  from assms have iv: "length ?iv = 16"
    and p: "payload = ?iv @ xor_keystream ks (signedEncryptionNoteToKey sig) ?iv 0 P"
    by (auto simp: encryptBytes_eq split: if_splits)
  have t: "take 16 payload = ?iv"
    using iv p by simp
  have r: "readEncryptionNoteFromEncryptedBytes payload = toHex ?iv"
    using t by (simp add: readEncryptionNoteFromEncryptedBytes_def ENCRYPTION_IV_SIZE_def)
  have o: "readEncryptionNoteFromEncryptedBytes (take 16 payload @ other) = toHex ?iv" for other
    using t iv by (simp add: readEncryptionNoteFromEncryptedBytes_def ENCRYPTION_IV_SIZE_def)
  have f: "fst (readEncryptionNoteFromFile w f) = Inr (toHex ?iv)
      \<and> trace (snd (readEncryptionNoteFromFile w f))
          = trace w @ [Opened f (next_fd w), ReadAt (next_fd w) 0 16, Closed (next_fd w)]"
    if "files w f = Some (File (take 16 payload @ other))" for w f other
    using readEncryptionNoteFromFile_regular [OF that] t iv by simp
  show ?thesis
    using t r o f by (simp add: hexDecode_toHex)
qed

text \<open>The payload of \<open>hello world\<close>, as a buffer and as a file of the sample file system.\<close>

theorem note_is_payload_prefix_witness:
  "encryptBytes sample_keystream hello_world (Str zero_note) ones_signature = Inr hello_payload
   \<and> take 16 hello_payload = replicate 16 0
   \<and> readEncryptionNoteFromEncryptedBytes hello_payload = zero_note
   \<and> fst (readEncryptionNoteFromFile sample_world ''hello.txt.eth.encrypted'') = Inr zero_note
   \<and> trace (snd (readEncryptionNoteFromFile sample_world ''hello.txt.eth.encrypted''))
       = [Opened ''hello.txt.eth.encrypted'' 3, ReadAt 3 0 16, Closed 3]"
proof -
  have e: "encryptBytes sample_keystream hello_world (Str zero_note) ones_signature
             = Inr hello_payload"
    by code_simp
  have z: "toHex (Buffer_from_hex (Str zero_note)) = zero_note"
    and b: "Buffer_from_hex (Str zero_note) = replicate 16 0"
    by code_simp+
  have s: "files sample_world ''hello.txt.eth.encrypted''
             = Some (File (take 16 hello_payload @ drop 16 hello_payload))"
    by (simp add: sample_world_def)
  have n: "next_fd sample_world = 3" and t: "trace sample_world = []"
    by (simp_all add: sample_world_def)
  from note_is_payload_prefix [OF e] e z b s n t show ?thesis
    by (metis append_Nil)
qed

section \<open>Claims about the partial read\<close>

text \<open>
  Claim C7, as the specification states it, does not hold: a file shorter than 16 bytes is
  not refused.  A file of three bytes gives the note made of these three bytes and 13 zero
  bytes.
\<close>

theorem short_file_read_succeeds:
  "files sample_world ''short.bin'' = Some (File [1, 2, 3])
   \<and> length [1, 2, 3 :: byte] < 16
   \<and> fst (readEncryptionNoteFromFile sample_world ''short.bin'')
       = Inr (js ''01020300000000000000000000000000'')"
  by code_simp

text \<open>
  Claim C7, amended.  \<open>readEncryptionNoteFromFile\<close> on a regular file makes one read
  request, for 16 bytes at position 0, whatever the size of the file, and closes the
  descriptor; it returns the hex text of the first 16 bytes, a file shorter than 16 bytes
  being completed with zero bytes and not refused; it fails when nothing has the name.
\<close>

theorem readEncryptionNoteFromFile_bounded_read:
  "(files w f = Some (File content) \<longrightarrow>
      readEncryptionNoteFromFile w f =
        (Inr (toHex (take 16 content @ replicate (16 - length content) 0)),
         w\<lparr>next_fd := Suc (next_fd w),
           trace := trace w @ [Opened f (next_fd w), ReadAt (next_fd w) 0 16, Closed (next_fd w)]\<rparr>))
   \<and> (files w f = None \<longrightarrow> readEncryptionNoteFromFile w f = (Inl ENOENT, w))"
  using readEncryptionNoteFromFile_regular readEncryptionNoteFromFile_missing by blast

text \<open>The amended statement at a file of the sample file system and at a missing name.\<close>

theorem readEncryptionNoteFromFile_bounded_read_witness:
  "fst (readEncryptionNoteFromFile sample_world ''hello.txt.eth.encrypted'') = Inr zero_note
   \<and> trace (snd (readEncryptionNoteFromFile sample_world ''hello.txt.eth.encrypted''))
       = [Opened ''hello.txt.eth.encrypted'' 3, ReadAt 3 0 16, Closed 3]
   \<and> open_fds (snd (readEncryptionNoteFromFile sample_world ''hello.txt.eth.encrypted'')) = []
   \<and> readEncryptionNoteFromFile sample_world ''nothing'' = (Inl ENOENT, sample_world)"
proof -
  have s: "files sample_world ''hello.txt.eth.encrypted'' = Some (File hello_payload)"
    and m: "files sample_world ''nothing'' = None"
    by (simp_all add: sample_world_def)
  have z: "toHex (take 16 hello_payload @ replicate (16 - length hello_payload) 0) = zero_note"
    by code_simp
  have n: "next_fd sample_world = 3" "trace sample_world = []" "open_fds sample_world = []"
    by (simp_all add: sample_world_def)
  from readEncryptionNoteFromFile_bounded_read
         [of sample_world "''hello.txt.eth.encrypted''" hello_payload]
       readEncryptionNoteFromFile_bounded_read [of sample_world "''nothing''"]
       s m z n
  show ?thesis by simp
qed

text \<open>
  Claim C9 asks that the descriptor opened by \<open>partialReadSync\<close> is closed on every exit
  path.  The code closes it after the read only: when \<open>readSync\<close> raises, as it does on a
  directory, the function is left with the descriptor still in the table of open ones.
\<close>

theorem partialReadSync_leaves_descriptor_open:
  "files sample_world ''dir'' = Some Dir
   \<and> open_fds sample_world = []
   \<and> fst (partialReadSync sample_world ''dir'' 0 16) = Inl EISDIR
   \<and> open_fds (snd (partialReadSync sample_world ''dir'' 0 16)) = [(3, ''dir'')]
   \<and> trace (snd (partialReadSync sample_world ''dir'' 0 16)) = [Opened ''dir'' 3, ReadAt 3 0 16]"
  by code_simp

section \<open>Claims about the streaming variant and the order of the steps\<close>

text \<open>
  Claim C3 says that the note is emitted exactly once and that a plaintext of length zero
  gives a payload of 16 bytes, in the buffer variant and in the streaming variant.  The
  buffer variant does so.  In the streaming variant \<open>_transform\<close> is the only place that
  pushes the note, and it runs once for every chunk that arrives: for an empty file no
  chunk arrives, the result of \<open>final\<close> is empty and is not passed on, and the class has no
  \<open>_flush\<close>.  The output file is created and stays empty.
\<close>

theorem streaming_empty_file_has_no_header:
  "files sample_world ''empty.txt'' = Some (File [])
   \<and> encryptBytes sample_keystream [] (Str zero_note) ones_signature = Inr (replicate 16 0)
   \<and> fst (encryptFileAsStream sample_keystream sample_world ''empty.txt''
             ''empty.txt.eth.encrypted'' (Str zero_note) ones_signature) = Inr ()
   \<and> files (snd (encryptFileAsStream sample_keystream sample_world ''empty.txt''
                   ''empty.txt.eth.encrypted'' (Str zero_note) ones_signature))
        ''empty.txt.eth.encrypted'' = Some (File [])"
proof -
  have "encryptBytes sample_keystream [] (Str zero_note) ones_signature = Inr (replicate 16 0)"
    by code_simp
  then show ?thesis
    by (simp add: encryptFileAsStream_empty sample_files)
qed

text \<open>
  Claim C8.  In an encryption started with an empty trace, the cipher is created only
  after the signature has been obtained, and the output is opened and written only after
  the cipher has been created; when the signer declines, the files are as before and the
  trace has no cipher and no output.
\<close>

theorem signature_before_cipher_before_output:
  assumes "trace w = []"
  shows "happens_before is_signature is_cipher
           (trace (snd (processFileEncryption ks randomBytes w fileName provider opts)))
     \<and> happens_before is_cipher is_output
           (trace (snd (processFileEncryption ks randomBytes w fileName provider opts)))
     \<and> (signer_declines provider (generateEncryptionNote randomBytes) \<longrightarrow>
           files (snd (processFileEncryption ks randomBytes w fileName provider opts)) = files w
           \<and> list_all (\<lambda>e. \<not> is_cipher e \<and> \<not> is_output e)
                (trace (snd (processFileEncryption ks randomBytes w fileName provider opts))))"
proof (intro conjI impI)
  let ?t = "trace (snd (processFileEncryption ks randomBytes w fileName provider opts))"
  note forms = processFileEncryption_trace [OF assms, of ks randomBytes fileName provider opts]
  show "happens_before is_signature is_cipher ?t"
    using forms
    by (elim disjE exE)
      (simp_all add: signature_before_cipher_trace happens_before_none)
  show "happens_before is_cipher is_output ?t"
    using forms
    by (elim disjE exE)
      (simp_all add: cipher_before_output_trace happens_before_none)
next
  assume "signer_declines provider (generateEncryptionNote randomBytes)"
  from processFileEncryption_declined [OF this, of ks w fileName opts] assms
  show "files (snd (processFileEncryption ks randomBytes w fileName provider opts)) = files w"
    and "list_all (\<lambda>e. \<not> is_cipher e \<and> \<not> is_output e)
           (trace (snd (processFileEncryption ks randomBytes w fileName provider opts)))"
    by auto
qed

text \<open>
  The theorem at an encryption of \<open>hello.txt\<close> in the sample file system, with a signer
  that signs and with one that declines.
\<close>

theorem signature_before_cipher_before_output_witness:
  "happens_before is_signature is_cipher
     (trace (snd (processFileEncryption sample_keystream (replicate 16 0) sample_world
                    ''hello.txt'' (Web3 sample_address sample_signer) sample_options)))
   \<and> happens_before is_cipher is_output
     (trace (snd (processFileEncryption sample_keystream (replicate 16 0) sample_world
                    ''hello.txt'' (Web3 sample_address sample_signer) sample_options)))
   \<and> trace (snd (processFileEncryption sample_keystream (replicate 16 0) sample_world
                    ''hello.txt'' (Web3 sample_address sample_signer) sample_options))
       = [SignRequested (ETH_ENCRYPT_MESSAGE @ zero_note) sample_address,
          SignatureObtained ones_signature,
          ReadStreamCreated ''hello.txt'', CipherCreated,
          WriteStreamCreated ''hello-dup-1.txt.eth.encrypted'',
          ChunkWritten ''hello-dup-1.txt.eth.encrypted'' (replicate 16 0),
          ChunkWritten ''hello-dup-1.txt.eth.encrypted'' [72, 68, 78, 79, 75, 5, 81, 72, 90, 69, 78]]
   \<and> signer_declines (Web3 sample_address declining_signer) (generateEncryptionNote (replicate 16 0))
   \<and> files (snd (processFileEncryption sample_keystream (replicate 16 0) sample_world
                    ''hello.txt'' (Web3 sample_address declining_signer) sample_options))
       = files sample_world"
proof -
  have t: "trace sample_world = []"
    by (simp add: sample_world_def)
  have d: "signer_declines (Web3 sample_address declining_signer) (generateEncryptionNote (replicate 16 0))"
    by (simp add: signer_declines_def declining_signer_def)
  from signature_before_cipher_before_output
         [OF t, of sample_keystream "replicate 16 0" "''hello.txt''"
            "Web3 sample_address sample_signer" sample_options]
       signature_before_cipher_before_output
         [OF t, of sample_keystream "replicate 16 0" "''hello.txt''"
            "Web3 sample_address declining_signer" sample_options]
       d sample_run
  show ?thesis by simp
qed

end
